theory Spec2Isabelle
  imports Main "HOL-Library.Word" "HOL-Library.Multiset" "HOL-Library.Sublist"
begin

section \<open>Strings, vocabulary items and the random source\<close>

text \<open>
  A JavaScript string is a sequence of 16-bit code units: \<open>length\<close>, \<open>slice\<close>,
  \<open>trim\<close>, \<open>===\<close> and a regular expression without the \<open>u\<close> flag all work on
  code units.
\<close>

type_synonym jschar = "16 word"
type_synonym jsstring = "jschar list"

text \<open>The interface \<open>Word\<close> of the types module; the field \<open>id\<close> is named \<open>id_w\<close>.\<close>

record Word =
  id_w :: jsstring
  kanji :: jsstring
  hiragana :: jsstring
  romaji :: jsstring
  meanings :: "jsstring list"
  level :: int
  exampleSentence :: jsstring
  exampleMeaning :: jsstring
  imagePrompt :: "jsstring option"
  imageUrl :: "jsstring option"
  learnedAt :: "jsstring option"

text \<open>
  \<open>Math.random()\<close> is an input of the model: every function that draws takes the raw
  draws as a list of naturals (past its end a draw is 0), and the theorems hold for
  every such list. \<open>Math.floor(Math.random() * n)\<close> is some index below \<open>n\<close> (0 when
  \<open>n\<close> is 0): the raw draw modulo \<open>n\<close>.
\<close>

definition draw :: "nat list \<Rightarrow> nat" where
  "draw rs = (case rs of [] \<Rightarrow> 0 | r # _ \<Rightarrow> r)"

definition randomIndex :: "nat list \<Rightarrow> nat \<Rightarrow> nat" where
  "randomIndex rs n = (if n = 0 then 0 else draw rs mod n)"

text \<open>\<open>pool.splice(i, 1)\<close>: the array without its element at index \<open>i\<close>.\<close>

definition splice1 :: "nat \<Rightarrow> 'a list \<Rightarrow> 'a list" where
  "splice1 i xs = take i xs @ drop (Suc i) xs"

text \<open>
  \<open>xs.sort(() => 0.5 - Math.random())\<close> sorts a fresh copy with a comparator that
  answers at random: the result is the same elements in an order the random source
  decides. \<open>shuffle\<close> builds that order from the draws, taking one remaining element
  per draw; with no draws left the rest keeps its order.
\<close>

fun shuffle :: "nat list \<Rightarrow> 'a list \<Rightarrow> 'a list" where
  "shuffle rs [] = []"
| "shuffle [] xs = xs"
| "shuffle (r # rs) xs = (xs ! (r mod length xs)) # shuffle rs (splice1 (r mod length xs) xs)"

text \<open>\<open>Math.random() > 0.5\<close> inside a \<open>map\<close> callback: the coin of position \<open>i\<close>.\<close>

definition coinAt :: "bool list \<Rightarrow> nat \<Rightarrow> bool" where
  "coinAt cs i = (i < length cs \<and> cs ! i)"

section \<open>ReviewMode\<close>

definition TOTAL_ROUNDS :: nat where
  "TOTAL_ROUNDS = 10"

datatype TargetType = HIRAGANA | MEANING

record ReviewItem =
  word :: Word
  targetType :: TargetType

text \<open>
  The component's state (its \<open>useState\<close> cells), and \<open>rv_exits\<close>, the number of times
  the \<open>onExit\<close> callback of the props has been invoked.
\<close>

record ReviewState =
  rv_currentRound :: nat
  rv_selectedLeft :: "jsstring option"
  matchedPairs :: "jsstring list"
  shuffledLeft :: "Word list"
  shuffledRight :: "ReviewItem list"
  rv_exits :: nat

definition review_init :: ReviewState where
  "review_init = \<lparr>rv_currentRound = 1, rv_selectedLeft = None, matchedPairs = [],
     shuffledLeft = [], shuffledRight = [], rv_exits = 0\<rparr>"

text \<open>The draws of one \<open>setupRound\<close> of ReviewMode, one field per place that draws.\<close>

record ReviewRandom =
  rr_index :: "nat list"
  rr_left :: "nat list"
  rr_target :: "bool list"
  rr_right :: "nat list"

text \<open>
  The \<open>for\<close> loop of \<open>setupRound\<close>, \<open>n\<close> iterations to go. It runs only behind the
  guard \<open>words.length === 0\<close>, so the refilled pool is never empty and the index read
  is in range (\<open>pickRoundWords_reads_in_range\<close> below).
\<close>

fun pickRoundWords :: "nat \<Rightarrow> nat list \<Rightarrow> Word list \<Rightarrow> Word list \<Rightarrow> Word list \<Rightarrow> Word list" where
  "pickRoundWords 0 rs words pool roundWords = roundWords"
| "pickRoundWords (Suc n) rs words pool roundWords =
     (let pool1 = (if pool = [] then pool @ words else pool);
          i = randomIndex rs (length pool1)
      in pickRoundWords n (tl rs) words (splice1 i pool1) (roundWords @ [pool1 ! i]))"

definition mkRight :: "bool list \<Rightarrow> Word list \<Rightarrow> ReviewItem list" where
  "mkRight cs ws = map (\<lambda>(i, w). \<lparr>word = w, targetType = (if coinAt cs i then HIRAGANA else MEANING)\<rparr>)
     (enumerate 0 ws)"

definition setupRound_review :: "Word list \<Rightarrow> ReviewRandom \<Rightarrow> ReviewState \<Rightarrow> ReviewState" where
  "setupRound_review words rnd s =
     (if length words = 0 then s
      else
        let roundWords = pickRoundWords 5 (rr_index rnd) words words [];
            newLeft = shuffle (rr_left rnd) roundWords;
            newRight = shuffle (rr_right rnd) (mkRight (rr_target rnd) roundWords)
        in s\<lparr>shuffledLeft := newLeft, shuffledRight := newRight,
              matchedPairs := [], rv_selectedLeft := None\<rparr>)"

text \<open>\<open>!selectedLeft\<close>: \<open>null\<close> and the empty string are falsy.\<close>

definition falsy :: "jsstring option \<Rightarrow> bool" where
  "falsy v = (case v of None \<Rightarrow> True | Some x \<Rightarrow> x = [])"

definition handleLeftClick :: "jsstring \<Rightarrow> ReviewState \<Rightarrow> ReviewState" where
  "handleLeftClick i s =
     (if i \<in> set (matchedPairs s) then s else s\<lparr>rv_selectedLeft := Some i\<rparr>)"

text \<open>The shake animation of the wrong branch touches the DOM only.\<close>

definition handleRightClick :: "jsstring \<Rightarrow> ReviewState \<Rightarrow> ReviewState" where
  "handleRightClick i s =
     (if falsy (rv_selectedLeft s) \<or> i \<in> set (matchedPairs s) then s
      else if rv_selectedLeft s = Some i
      then s\<lparr>matchedPairs := matchedPairs s @ [i], rv_selectedLeft := None\<rparr>
      else s\<lparr>rv_selectedLeft := None\<rparr>)"

text \<open>
  \<open>handleNextRound\<close> is the click handler of a button of the current render, so the
  \<open>currentRound\<close> it reads is the state's.
\<close>

definition handleNextRound :: "Word list \<Rightarrow> ReviewRandom \<Rightarrow> ReviewState \<Rightarrow> ReviewState" where
  "handleNextRound words rnd s =
     (if rv_currentRound s < TOTAL_ROUNDS
      then setupRound_review words rnd (s\<lparr>rv_currentRound := rv_currentRound s + 1\<rparr>)
      else s\<lparr>rv_exits := rv_exits s + 1\<rparr>)"

definition isRoundComplete :: "ReviewState \<Rightarrow> bool" where
  "isRoundComplete s =
     (length (shuffledLeft s) > 0 \<and> length (matchedPairs s) = length (shuffledLeft s))"

text \<open>
  What the rendered round offers. A left button exists for every entry of
  \<open>shuffledLeft\<close>, a right button for every entry of \<open>shuffledRight\<close>, each
  \<open>disabled\<close> once its identifier is matched; a click on a button that does not exist
  or is disabled reaches no handler.
\<close>

datatype MatchClick = LeftClick jsstring | RightClick jsstring

fun review_click :: "MatchClick \<Rightarrow> ReviewState \<Rightarrow> ReviewState" where
  "review_click (LeftClick i) s =
     (if i \<in> id_w ` set (shuffledLeft s) \<and> i \<notin> set (matchedPairs s)
      then handleLeftClick i s else s)"
| "review_click (RightClick i) s =
     (if i \<in> (id_w \<circ> word) ` set (shuffledRight s) \<and> i \<notin> set (matchedPairs s)
      then handleRightClick i s else s)"

text \<open>
  The events of a ReviewMode session. With an empty pool the component renders only
  the no-words panel, whose button invokes \<open>onExit\<close>. Otherwise it renders the round,
  the exit button of the header and, once \<open>isRoundComplete\<close>, either the next-round
  button (\<open>currentRound < TOTAL_ROUNDS\<close>) or the finished panel, whose button invokes
  \<open>onExit\<close>. \<open>onExit\<close> is \<open>handleGoHome\<close> of the App: it leaves the mode, which
  unmounts the component, so no handler runs after it.
\<close>

datatype ReviewEvent = Click MatchClick | NextRoundClick ReviewRandom | FinishClick | ExitClick

definition review_mount :: "Word list \<Rightarrow> ReviewRandom \<Rightarrow> ReviewState" where
  "review_mount words rnd = setupRound_review words rnd review_init"

fun review_step :: "Word list \<Rightarrow> ReviewState \<Rightarrow> ReviewEvent \<Rightarrow> ReviewState" where
  "review_step words s ExitClick =
     (if 0 < rv_exits s then s else s\<lparr>rv_exits := rv_exits s + 1\<rparr>)"
| "review_step words s (Click c) =
     (if 0 < rv_exits s \<or> length words < 1 then s else review_click c s)"
| "review_step words s (NextRoundClick rnd) =
     (if 0 < rv_exits s \<or> length words < 1 then s
      else if isRoundComplete s \<and> rv_currentRound s < TOTAL_ROUNDS
      then handleNextRound words rnd s else s)"
| "review_step words s FinishClick =
     (if 0 < rv_exits s \<or> length words < 1 then s
      else if isRoundComplete s \<and> \<not> rv_currentRound s < TOTAL_ROUNDS
      then s\<lparr>rv_exits := rv_exits s + 1\<rparr> else s)"

definition review_run :: "Word list \<Rightarrow> ReviewState \<Rightarrow> ReviewEvent list \<Rightarrow> ReviewState" where
  "review_run words s evs = foldl (review_step words) s evs"

section \<open>QuizMode\<close>

subsection \<open>String operations\<close>

text \<open>
  \<open>String.prototype.trim\<close> removes the WhiteSpace and LineTerminator code units of
  ECMAScript from both ends.
\<close>

definition isLineTerminator :: "jschar \<Rightarrow> bool" where
  "isLineTerminator c = (c = 0x000A \<or> c = 0x000D \<or> c = 0x2028 \<or> c = 0x2029)"

definition isWhiteSpace :: "jschar \<Rightarrow> bool" where
  "isWhiteSpace c =
     (c = 0x0009 \<or> c = 0x000B \<or> c = 0x000C \<or> c = 0x0020 \<or> c = 0x00A0 \<or> c = 0x1680
      \<or> (0x2000 \<le> c \<and> c \<le> 0x200A) \<or> c = 0x202F \<or> c = 0x205F \<or> c = 0x3000
      \<or> c = 0xFEFF \<or> isLineTerminator c)"

definition trim :: "jsstring \<Rightarrow> jsstring" where
  "trim s = rev (dropWhile isWhiteSpace (rev (dropWhile isWhiteSpace s)))"

text \<open>
  \<open>s.replace(/\[.*?\]/g, '')\<close>. The scan goes left to right. At a \<open>[\<close> the lazy
  \<open>.*?\<close> stops at the first \<open>]\<close>, and \<open>.\<close> matches no line terminator, so the
  match succeeds exactly when a \<open>]\<close> comes before any line terminator; it is then
  deleted and the scan resumes behind it. Otherwise the \<open>[\<close> stays and the scan moves
  on by one code unit. \<open>closeBracket\<close> returns what follows the closing \<open>]\<close>.
\<close>

definition LBRACKET :: jschar where
  "LBRACKET = 0x005B"

definition RBRACKET :: jschar where
  "RBRACKET = 0x005D"

fun closeBracket :: "jsstring \<Rightarrow> jsstring option" where
  "closeBracket [] = None"
| "closeBracket (c # cs) =
     (if c = RBRACKET then Some cs
      else if isLineTerminator c then None
      else closeBracket cs)"

lemma closeBracket_shorter: "closeBracket cs = Some r \<Longrightarrow> length r < length cs"
  by (induction cs) (auto split: if_splits)

function stripBrackets :: "jsstring \<Rightarrow> jsstring" where
  "stripBrackets [] = []"
| "stripBrackets (c # cs) =
     (if c = LBRACKET
      then (case closeBracket cs of
              Some r \<Rightarrow> stripBrackets r
            | None \<Rightarrow> c # stripBrackets cs)
      else c # stripBrackets cs)"
  by pat_completeness auto
termination
  by (relation "measure length") (auto dest: closeBracket_shorter)


text \<open>
  The \<open>while\<close> loop that cuts \<open>cleanSentence\<close> into chunks:
  \<open>len = Math.floor(Math.random() * 3) + 2\<close>, \<open>remaining.slice(0, len)\<close> is pushed
  and \<open>remaining.slice(len)\<close> goes on.
\<close>

function chunkLoop :: "nat list \<Rightarrow> jsstring \<Rightarrow> jsstring list" where
  "chunkLoop rs remaining =
     (if length remaining > 0
      then (let len = randomIndex rs 3 + 2
            in take len remaining # chunkLoop (tl rs) (drop len remaining))
      else [])"
  by pat_completeness auto
termination
  by (relation "measure (\<lambda>(rs, remaining). length remaining)") (auto simp: Let_def)

declare chunkLoop.simps [simp del]

subsection \<open>State\<close>

datatype QuizType = MATCHING | TYPING | SENTENCE | LISTENING

datatype Feedback = NONE | CORRECT | WRONG

text \<open>
  An entry of \<open>matchingRight\<close> (\<open>id\<close>, \<open>text\<close>, \<open>type\<close>); \<open>w.meanings[0]\<close> is
  \<open>undefined\<close> for a word without meanings, hence the option. A sentence block is
  \<open>{id, text}\<close>.
\<close>

record MatchRight =
  id_r :: jsstring
  text_r :: "jsstring option"
  type_r :: TargetType

record Block =
  id_b :: nat
  text_b :: jsstring

text \<open>
  The \<open>useState\<close> cells of the component, and two effects: \<open>timers\<close>, the pending
  \<open>setTimeout(handleNext, ...)\<close> callbacks, and \<open>exits\<close>, the number of times
  \<open>onExit\<close> has been invoked. A pending callback is the \<open>handleNext\<close> of the render
  that scheduled it, and that closure holds the \<open>currentRound\<close> of its render as a
  constant: the entry of \<open>timers\<close> is that value. Nothing in the component calls
  \<open>clearTimeout\<close>.
\<close>

record QuizState =
  currentRound :: nat
  currentType :: QuizType
  currentWord :: "Word option"
  matchingLeft :: "Word list"
  matchingRight :: "MatchRight list"
  matchingPairs :: "jsstring list"
  selectedLeft :: "jsstring option"
  typingInput :: jsstring
  typingFeedback :: Feedback
  sentenceBlocks :: "Block list"
  userSentence :: "Block list"
  sentenceFeedback :: Feedback
  listeningOptions :: "Word list"
  listeningFeedback :: Feedback
  selectedOption :: "jsstring option"
  timers :: "nat list"
  exits :: nat

definition quiz_init :: QuizState where
  "quiz_init = \<lparr>currentRound = 1, currentType = MATCHING, currentWord = None,
     matchingLeft = [], matchingRight = [], matchingPairs = [], selectedLeft = None,
     typingInput = [], typingFeedback = NONE,
     sentenceBlocks = [], userSentence = [], sentenceFeedback = NONE,
     listeningOptions = [], listeningFeedback = NONE, selectedOption = None,
     timers = [], exits = 0\<rparr>"

text \<open>The draws of one \<open>setupRound\<close> of QuizMode, one field per place that draws.\<close>

record QuizRandom =
  rq_type :: "nat list"
  rq_word :: "nat list"
  rq_pool :: "nat list"
  rq_text :: "bool list"
  rq_right :: "nat list"
  rq_len :: "nat list"
  rq_blocks :: "nat list"
  rq_wrong :: "nat list"
  rq_options :: "nat list"

subsection \<open>setupRound and handleNext\<close>

definition types :: "QuizType list" where
  "types = [MATCHING, TYPING, SENTENCE, LISTENING]"

definition mkMatchRight :: "bool list \<Rightarrow> Word list \<Rightarrow> MatchRight list" where
  "mkMatchRight cs pool =
     map (\<lambda>(i, w). \<lparr>id_r = id_w w,
                     text_r = (if coinAt cs i then Some (hiragana w)
                               else (case meanings w of [] \<Rightarrow> None | m # _ \<Rightarrow> Some m)),
                     type_r = HIRAGANA\<rparr>)
       (enumerate 0 pool)"

definition mkBlocks :: "jsstring list \<Rightarrow> Block list" where
  "mkBlocks chunks = map (\<lambda>(i, t). \<lparr>id_b = i, text_b = t\<rparr>) (enumerate 0 chunks)"

text \<open>
  Both index reads are in range (\<open>setupRound_reads_in_range\<close> below): \<open>types\<close> has
  four entries, and \<open>words\<close> is not empty behind the guard.
\<close>

definition setupRound :: "Word list \<Rightarrow> QuizRandom \<Rightarrow> QuizState \<Rightarrow> QuizState" where
  "setupRound words rnd s =
     (if length words = 0 then s
      else
        let nextType = types ! randomIndex (rq_type rnd) (length types);
            randomWord = words ! randomIndex (rq_word rnd) (length words);
            s1 = s\<lparr>currentType := nextType, currentWord := Some randomWord,
                   typingInput := [], typingFeedback := NONE, sentenceFeedback := NONE,
                   listeningFeedback := NONE, selectedOption := None, userSentence := []\<rparr>
        in case nextType of
             MATCHING \<Rightarrow>
               (let pool = take 3 (shuffle (rq_pool rnd) words)
                in s1\<lparr>matchingLeft := pool,
                       matchingRight := shuffle (rq_right rnd) (mkMatchRight (rq_text rnd) pool),
                       matchingPairs := [], selectedLeft := None\<rparr>)
           | SENTENCE \<Rightarrow>
               (let cleanSentence = stripBrackets (exampleSentence randomWord);
                    chunks = chunkLoop (rq_len rnd) cleanSentence
                in s1\<lparr>sentenceBlocks := shuffle (rq_blocks rnd) (mkBlocks chunks)\<rparr>)
           | LISTENING \<Rightarrow>
               (let wrongOptions =
                      take 3 (shuffle (rq_wrong rnd) (filter (\<lambda>w. id_w w \<noteq> id_w randomWord) words));
                    options = shuffle (rq_options rnd) (randomWord # wrongOptions)
                in s1\<lparr>listeningOptions := options\<rparr>)
           | TYPING \<Rightarrow> s1)"

text \<open>
  \<open>handleNext\<close> as a closure: \<open>cr\<close> is the \<open>currentRound\<close> of the render that
  created it, which the test reads, while \<open>setCurrentRound(prev => prev + 1)\<close> works
  on the state at the time of the call.
\<close>

definition handleNext :: "nat \<Rightarrow> Word list \<Rightarrow> QuizRandom \<Rightarrow> QuizState \<Rightarrow> QuizState" where
  "handleNext cr words rnd s =
     (if cr < TOTAL_ROUNDS
      then setupRound words rnd (s\<lparr>currentRound := currentRound s + 1\<rparr>)
      else s\<lparr>exits := exits s + 1\<rparr>)"

text \<open>\<open>setTimeout(handleNext, ...)\<close> in a handler of the current render.\<close>

definition scheduleNext :: "QuizState \<Rightarrow> QuizState" where
  "scheduleNext s = s\<lparr>timers := timers s @ [currentRound s]\<rparr>"

subsection \<open>The handlers of the four engines\<close>

definition handleMatchLeft :: "jsstring \<Rightarrow> QuizState \<Rightarrow> QuizState" where
  "handleMatchLeft i s =
     (if i \<notin> set (matchingPairs s) then s\<lparr>selectedLeft := Some i\<rparr> else s)"

definition handleMatchRight :: "jsstring \<Rightarrow> QuizState \<Rightarrow> QuizState" where
  "handleMatchRight i s =
     (if falsy (selectedLeft s) \<or> i \<in> set (matchingPairs s) then s
      else if selectedLeft s = Some i
      then (let newPairs = matchingPairs s @ [i];
                s1 = s\<lparr>matchingPairs := newPairs, selectedLeft := None\<rparr>
            in if length newPairs = length (matchingLeft s) then scheduleNext s1 else s1)
      else s\<lparr>selectedLeft := None\<rparr>)"

definition checkTyping :: "QuizState \<Rightarrow> QuizState" where
  "checkTyping s =
     (case currentWord s of
        None \<Rightarrow> s
      | Some w \<Rightarrow>
          if trim (typingInput s) = hiragana w
          then scheduleNext (s\<lparr>typingFeedback := CORRECT\<rparr>)
          else s\<lparr>typingFeedback := WRONG\<rparr>)"

definition toggleSentenceBlock :: "Block \<Rightarrow> bool \<Rightarrow> QuizState \<Rightarrow> QuizState" where
  "toggleSentenceBlock block isUsed s =
     (if isUsed
      then s\<lparr>userSentence := filter (\<lambda>b. id_b b \<noteq> id_b block) (userSentence s),
             sentenceBlocks := sentenceBlocks s @ [block]\<rparr>
      else s\<lparr>sentenceBlocks := filter (\<lambda>b. id_b b \<noteq> id_b block) (sentenceBlocks s),
             userSentence := userSentence s @ [block]\<rparr>)"

definition checkSentence :: "QuizState \<Rightarrow> QuizState" where
  "checkSentence s =
     (case currentWord s of
        None \<Rightarrow> s
      | Some w \<Rightarrow>
          (let attempt = concat (map text_b (userSentence s));
               target = stripBrackets (exampleSentence w)
           in if attempt = target
              then scheduleNext (s\<lparr>sentenceFeedback := CORRECT\<rparr>)
              else s\<lparr>sentenceFeedback := WRONG\<rparr>))"

definition checkListening :: "jsstring \<Rightarrow> QuizState \<Rightarrow> QuizState" where
  "checkListening selectedId s =
     (case currentWord s of
        None \<Rightarrow> s
      | Some w \<Rightarrow>
          (let s1 = s\<lparr>selectedOption := Some selectedId\<rparr>
           in if selectedId = id_w w
              then scheduleNext (s1\<lparr>listeningFeedback := CORRECT\<rparr>)
              else s1\<lparr>listeningFeedback := WRONG\<rparr>))"

subsection \<open>What the render offers\<close>

text \<open>
  The matching buttons of QuizMode: one per entry of \<open>matchingLeft\<close> and of
  \<open>matchingRight\<close>, \<open>disabled\<close> once its identifier is in \<open>matchingPairs\<close>.
\<close>

fun quiz_click :: "MatchClick \<Rightarrow> QuizState \<Rightarrow> QuizState" where
  "quiz_click (LeftClick i) s =
     (if i \<in> id_w ` set (matchingLeft s) \<and> i \<notin> set (matchingPairs s)
      then handleMatchLeft i s else s)"
| "quiz_click (RightClick i) s =
     (if i \<in> id_r ` set (matchingRight s) \<and> i \<notin> set (matchingPairs s)
      then handleMatchRight i s else s)"

text \<open>
  The option buttons of a Listening round: one per entry of \<open>listeningOptions\<close>,
  with \<open>disabled={listeningFeedback === 'CORRECT'}\<close>.
\<close>

definition clickOption :: "jsstring \<Rightarrow> QuizState \<Rightarrow> QuizState" where
  "clickOption i s =
     (if i \<in> id_w ` set (listeningOptions s) \<and> listeningFeedback s \<noteq> CORRECT
      then checkListening i s else s)"

text \<open>
  The Typing panel shows the reading of the current word (\<open>currentWord.hiragana\<close>)
  exactly while \<open>typingFeedback\<close> is \<open>WRONG\<close>.
\<close>

definition typingReveal :: "QuizState \<Rightarrow> jsstring option" where
  "typingReveal s =
     (case currentWord s of
        None \<Rightarrow> None
      | Some w \<Rightarrow> if currentType s = TYPING \<and> typingFeedback s = WRONG
                  then Some (hiragana w) else None)"

text \<open>
  A pending timer fires: the \<open>k\<close>-th entry leaves \<open>timers\<close> and its \<open>handleNext\<close>
  runs. Once \<open>onExit\<close> has been invoked the App has left the quiz and unmounted the
  component; a callback that fires afterwards still runs, React drops its state
  updates, and its \<open>onExit()\<close> branch calls the App again.
\<close>

definition fireTimer :: "nat \<Rightarrow> Word list \<Rightarrow> QuizRandom \<Rightarrow> QuizState \<Rightarrow> QuizState" where
  "fireTimer k words rnd s =
     (if k < length (timers s)
      then (let cr = timers s ! k;
                s1 = s\<lparr>timers := splice1 k (timers s)\<rparr>
            in if 0 < exits s
               then (if cr < TOTAL_ROUNDS then s1 else s1\<lparr>exits := exits s1 + 1\<rparr>)
               else handleNext cr words rnd s1)
      else s)"

text \<open>
  The events of a QuizMode session. With fewer than four words the component renders
  only the insufficient-words panel, whose button invokes \<open>onExit\<close>; otherwise the
  header with its exit button and the panel of \<open>currentType\<close> (the Typing, Sentence
  and Listening panels only when \<open>currentWord\<close> is set).
\<close>

datatype QuizEvent =
    MatchEv MatchClick
  | TypeText jsstring
  | SubmitTyping
  | ToggleBlock Block bool
  | SubmitSentence
  | OptionClick jsstring
  | TimerFires nat QuizRandom
  | QuizExit

definition panel :: "Word list \<Rightarrow> QuizState \<Rightarrow> QuizType \<Rightarrow> bool" where
  "panel words s t =
     (exits s = 0 \<and> \<not> length words < 4 \<and> currentType s = t
      \<and> (t = MATCHING \<or> currentWord s \<noteq> None))"

fun quiz_step :: "Word list \<Rightarrow> QuizState \<Rightarrow> QuizEvent \<Rightarrow> QuizState" where
  "quiz_step words s QuizExit = (if 0 < exits s then s else s\<lparr>exits := exits s + 1\<rparr>)"
| "quiz_step words s (TimerFires k rnd) = fireTimer k words rnd s"
| "quiz_step words s (MatchEv c) = (if panel words s MATCHING then quiz_click c s else s)"
| "quiz_step words s (TypeText t) = (if panel words s TYPING then s\<lparr>typingInput := t\<rparr> else s)"
| "quiz_step words s SubmitTyping = (if panel words s TYPING then checkTyping s else s)"
| "quiz_step words s (ToggleBlock b isUsed) =
     (if panel words s SENTENCE \<and> b \<in> set (if isUsed then userSentence s else sentenceBlocks s)
      then toggleSentenceBlock b isUsed s else s)"
| "quiz_step words s SubmitSentence = (if panel words s SENTENCE then checkSentence s else s)"
| "quiz_step words s (OptionClick i) = (if panel words s LISTENING then clickOption i s else s)"

definition quiz_mount :: "Word list \<Rightarrow> QuizRandom \<Rightarrow> QuizState" where
  "quiz_mount words rnd = setupRound words rnd quiz_init"

definition quiz_run :: "Word list \<Rightarrow> QuizState \<Rightarrow> QuizEvent list \<Rightarrow> QuizState" where
  "quiz_run words s evs = foldl (quiz_step words) s evs"

subsection \<open>The App's entry points and the components' guards\<close>

datatype AppMode = HOME | LEARN | QUIZ | REVIEW | REVIEW_FLASHCARD | VOCABULARY

text \<open>
  The quiz button of the home screen has \<open>disabled={learnedWords.length < 4}\<close>, the
  review button \<open>disabled={learnedWords.length === 0}\<close>; a click sets the mode, and
  the App then renders the component, whose mount effect runs \<open>setupRound\<close>. The
  result is the mounted component's state, or \<open>None\<close> when the click does nothing.
  The navigation bar of the review App has a second, unguarded review button.
\<close>

definition App_quizButton :: "Word list \<Rightarrow> AppMode \<Rightarrow> AppMode" where
  "App_quizButton learnedWords mode = (if length learnedWords < 4 then mode else QUIZ)"

definition App_reviewButton :: "Word list \<Rightarrow> AppMode \<Rightarrow> AppMode" where
  "App_reviewButton learnedWords mode = (if length learnedWords = 0 then mode else REVIEW)"

definition App_startQuiz :: "Word list \<Rightarrow> QuizRandom \<Rightarrow> QuizState option" where
  "App_startQuiz learnedWords rnd =
     (if App_quizButton learnedWords HOME = QUIZ then Some (quiz_mount learnedWords rnd) else None)"

definition App_startReview :: "Word list \<Rightarrow> ReviewRandom \<Rightarrow> ReviewState option" where
  "App_startReview learnedWords rnd =
     (if App_reviewButton learnedWords HOME = REVIEW then Some (review_mount learnedWords rnd) else None)"

definition App_navReview :: "Word list \<Rightarrow> ReviewRandom \<Rightarrow> ReviewState option" where
  "App_navReview learnedWords rnd = Some (review_mount learnedWords rnd)"

text \<open>What each component returns from its render: the guard first, the round otherwise.\<close>

datatype QuizView = InsufficientWords | QuizRound nat QuizType

datatype ReviewView = NoWords | ReviewRound nat "Word list" "ReviewItem list"

definition QuizMode_view :: "Word list \<Rightarrow> QuizState \<Rightarrow> QuizView" where
  "QuizMode_view words s =
     (if length words < 4 then InsufficientWords else QuizRound (currentRound s) (currentType s))"

definition ReviewMode_view :: "Word list \<Rightarrow> ReviewState \<Rightarrow> ReviewView" where
  "ReviewMode_view words s =
     (if length words < 1 then NoWords
      else ReviewRound (rv_currentRound s) (shuffledLeft s) (shuffledRight s))"

subsection \<open>A small vocabulary for the instances\<close>

definition exWord :: "jschar \<Rightarrow> jsstring \<Rightarrow> jsstring \<Rightarrow> Word" where
  "exWord c h ex = \<lparr>id_w = [c], kanji = [c], hiragana = h, romaji = [], meanings = [[c]],
     level = 5, exampleSentence = ex, exampleMeaning = [], imagePrompt = None,
     imageUrl = None, learnedAt = None\<rparr>"

text \<open>
  The first word reads \<open>watashi\<close> in hiragana (U+308F U+305F U+3057); its sentence
  is the one of the generator's prompt, with two annotations in brackets.
\<close>

definition watashi :: jsstring where
  "watashi = [0x308F, 0x305F, 0x3057]"

definition exSentence :: jsstring where
  "exSentence = [0x79C1, 0x5B, 0x308F, 0x305F, 0x3057, 0x5D, 0x306F,
                 0x5B66, 0x751F, 0x5B, 0x304C, 0x304F, 0x305B, 0x3044, 0x5D, 0x3067, 0x3059]"

definition exWords5 :: "Word list" where
  "exWords5 = [exWord 0x61 watashi exSentence, exWord 0x62 [0x3042] [0x3042, 0x3044],
               exWord 0x63 [0x3044] [], exWord 0x64 [0x3046] [], exWord 0x65 [0x3048] []]"

definition exWords4 :: "Word list" where
  "exWords4 = take 4 exWords5"

definition exWords3 :: "Word list" where
  "exWords3 = take 3 exWords5"

definition noDraws :: ReviewRandom where
  "noDraws = \<lparr>rr_index = [], rr_left = [], rr_target = [], rr_right = []\<rparr>"

text \<open>Draws that make \<open>setupRound\<close> pick the type of index \<open>t\<close> and the first word.\<close>

definition drawsFor :: "nat \<Rightarrow> QuizRandom" where
  "drawsFor t = \<lparr>rq_type = [t], rq_word = [], rq_pool = [], rq_text = [], rq_right = [],
     rq_len = [], rq_blocks = [], rq_wrong = [], rq_options = []\<rparr>"

text \<open>
  A review round and a quiz matching round in which the first word has just been
  matched.
\<close>

definition exReviewRound :: ReviewState where
  "exReviewRound = review_run exWords5 (review_mount exWords5 noDraws)
     [Click (LeftClick [0x61]), Click (RightClick [0x61])]"

definition exQuizRound :: QuizState where
  "exQuizRound = quiz_run exWords5 (quiz_mount exWords5 (drawsFor 0))
     [MatchEv (LeftClick [0x61]), MatchEv (RightClick [0x61])]"

definition exClicks :: "MatchClick list" where
  "exClicks = [LeftClick [0x61], RightClick [0x61], RightClick [0x62], LeftClick [0x62], RightClick [0x62]]"

text \<open>
  A review round of five distinct words matched one after the other, and the same
  clicks on a round drawn from three words.
\<close>

definition exMatchAll :: "ReviewEvent list" where
  "exMatchAll = concat (map (\<lambda>i. [Click (LeftClick i), Click (RightClick i)])
     [[0x61], [0x62], [0x63], [0x64], [0x65]])"

definition exFullRound :: ReviewState where
  "exFullRound = review_run exWords5 (review_mount exWords5 noDraws) exMatchAll"

definition exSmallRound :: ReviewState where
  "exSmallRound = review_run exWords3 (review_mount exWords3 noDraws) exMatchAll"

text \<open>
  Two event sequences: moving the blocks \<open>bs\<close> from the pool to the answer, one after
  the other, and typing and submitting the responses \<open>ts\<close>, one after the other.
\<close>

definition assemble :: "Block list \<Rightarrow> QuizEvent list" where
  "assemble bs = map (\<lambda>b. ToggleBlock b False) bs"

definition attempts :: "jsstring list \<Rightarrow> QuizEvent list" where
  "attempts ts = concat (map (\<lambda>t. [TypeText t, SubmitTyping]) ts)"

text \<open>
  Freshly mounted rounds of each type for the first word, the blocks of its sentence
  when every drawn length is 2, and two responses: the reading in katakana, and the
  reading between a space and an ideographic space.
\<close>

definition exTyping :: QuizState where
  "exTyping = quiz_mount exWords4 (drawsFor 1)"

definition exSentenceRound :: QuizState where
  "exSentenceRound = setupRound exWords4 (drawsFor 2) quiz_init"

definition exListening :: QuizState where
  "exListening = setupRound exWords4 (drawsFor 3) quiz_init"

definition exBlocks :: "Block list" where
  "exBlocks = mkBlocks (chunkLoop (rq_len (drawsFor 2)) (stripBrackets (exampleSentence (exWord 0x61 watashi exSentence))))"

definition katakana :: jsstring where
  "katakana = [0x30EF, 0x30BF, 0x30B7]"

definition spaced :: jsstring where
  "spaced = 0x0020 # watashi @ [0x3000]"

text \<open>
  Sessions of Typing rounds for the first word. \<open>exRound\<close> is one round played as
  intended: the reading is typed, submitted once, and the timer fires. In
  \<open>exTwice\<close> the learner submits the right response a second time before the timer
  of the first submission fires; then the first timer fires, which begins the next
  round (\<open>exTwiceStart\<close>), and then the second. In \<open>exLeave\<close> the learner submits
  the right response and leaves through the exit button (\<open>exLeaveStart\<close>) before
  the timer fires.
\<close>

definition exRound :: "QuizEvent list" where
  "exRound = [TypeText spaced, SubmitTyping, TimerFires 0 (drawsFor 1)]"

definition exTwiceStart :: "QuizEvent list" where
  "exTwiceStart = [TypeText spaced, SubmitTyping, SubmitTyping, TimerFires 0 (drawsFor 1)]"

definition exTwice :: "QuizEvent list" where
  "exTwice = [TypeText spaced, SubmitTyping, SubmitTyping,
              TimerFires 0 (drawsFor 1), TimerFires 0 (drawsFor 1)]"

definition exLeaveStart :: "QuizEvent list" where
  "exLeaveStart = [TypeText spaced, SubmitTyping, QuizExit]"

definition exLeave :: "QuizEvent list" where
  "exLeave = [TypeText spaced, SubmitTyping, QuizExit, TimerFires 0 (drawsFor 1)]"

definition exRound9 :: QuizState where
  "exRound9 = quiz_run exWords4 exTyping (concat (replicate 8 exRound))"

definition exRound10 :: QuizState where
  "exRound10 = quiz_run exWords4 exTyping (concat (replicate 9 exRound))"


subsection \<open>Invariants of the matching state\<close>

text \<open>
  In both components the matched identifiers are pairwise distinct and belong to the
  left column, and so does the selected one.
\<close>

definition review_inv :: "ReviewState \<Rightarrow> bool" where
  "review_inv s =
     (distinct (matchedPairs s) \<and> set (matchedPairs s) \<subseteq> id_w ` set (shuffledLeft s)
      \<and> set_option (rv_selectedLeft s) \<subseteq> id_w ` set (shuffledLeft s))"

definition quiz_inv :: "QuizState \<Rightarrow> bool" where
  "quiz_inv s =
     (distinct (matchingPairs s) \<and> set (matchingPairs s) \<subseteq> id_w ` set (matchingLeft s)
      \<and> set_option (selectedLeft s) \<subseteq> id_w ` set (matchingLeft s))"

section \<open>Facts about the random source and the sampler\<close>

lemma splice1_length: "i < length xs \<Longrightarrow> length (splice1 i xs) = length xs - 1"
  by (simp add: splice1_def)

lemma mset_nth_splice1: "i < length xs \<Longrightarrow> mset (xs ! i # splice1 i xs) = mset xs"
proof -
  assume a: "i < length xs"
  then have "xs = take i xs @ xs ! i # drop (Suc i) xs" by (rule id_take_nth_drop)
  then have "mset xs = mset (take i xs @ xs ! i # drop (Suc i) xs)" by simp
  then show ?thesis by (simp add: splice1_def)
qed

lemma mset_shuffle: "mset (shuffle rs xs) = mset xs"
proof (induction rs xs rule: shuffle.induct)
  case (3 r rs v va)
  have "r mod length (v # va) < length (v # va)" by simp
  from mset_nth_splice1[OF this] 3 show ?case by simp
qed simp_all

lemma length_shuffle: "length (shuffle rs xs) = length xs"
  using mset_shuffle[of rs xs] by (metis size_mset)

lemma set_shuffle: "set (shuffle rs xs) = set xs"
  using mset_shuffle[of rs xs] by (metis set_mset_mset)

lemma distinct_map_shuffle: "distinct (map f (shuffle rs xs)) = distinct (map f xs)"
proof -
  have "mset (map f (shuffle rs xs)) = mset (map f xs)" by (simp add: mset_shuffle)
  then show ?thesis by (rule mset_eq_imp_distinct_iff)
qed

lemma randomIndex_less: "0 < n \<Longrightarrow> randomIndex rs n < n"
  by (simp add: randomIndex_def)

text \<open>
  Behind their guards the index reads of the sampler and of QuizMode's \<open>setupRound\<close>
  are in range.
\<close>

lemma pickRoundWords_reads_in_range:
  "words \<noteq> [] \<Longrightarrow>
   randomIndex rs (length (if pool = [] then pool @ words else pool))
     < length (if pool = [] then pool @ words else pool)"
  by (simp add: randomIndex_less)

lemma setupRound_reads_in_range:
  "randomIndex rs (length types) < length types \<and>
   (words \<noteq> [] \<longrightarrow> randomIndex rs' (length words) < length (words :: Word list))"
  by (simp add: randomIndex_less types_def)

lemma length_pickRoundWords:
  "length (pickRoundWords n rs words pool acc) = length acc + n"
  by (induction n arbitrary: rs pool acc) (simp_all add: Let_def)

lemma set_pickRoundWords:
  "words \<noteq> [] \<Longrightarrow> set pool \<subseteq> set words \<Longrightarrow> set acc \<subseteq> set words \<Longrightarrow>
   set (pickRoundWords n rs words pool acc) \<subseteq> set words"
proof (induction n arbitrary: rs pool acc)
  case 0 then show ?case by simp
next
  case (Suc n)
  define pool1 where "pool1 = (if pool = [] then pool @ words else pool)"
  define i where "i = randomIndex rs (length pool1)"
  have p1: "pool1 \<noteq> []" "set pool1 \<subseteq> set words" using Suc.prems by (auto simp: pool1_def)
  then have i: "i < length pool1" by (simp add: i_def randomIndex_less)
  have "set (splice1 i pool1) \<subseteq> set words"
    using p1 by (auto simp: splice1_def dest: in_set_takeD in_set_dropD)
  moreover have "set (acc @ [pool1 ! i]) \<subseteq> set words"
    using Suc.prems p1 i by (auto)
  ultimately have "set (pickRoundWords n (tl rs) words (splice1 i pool1) (acc @ [pool1 ! i])) \<subseteq> set words"
    using Suc.IH Suc.prems(1) by blast
  then show ?case by (simp add: Let_def pool1_def i_def)
qed

lemma distinct_pickRoundWords:
  "n \<le> length pool \<Longrightarrow> distinct (map f (acc @ pool)) \<Longrightarrow>
   distinct (map f (pickRoundWords n rs words pool acc))"
proof (induction n arbitrary: rs pool acc)
  case 0 then show ?case by simp
next
  case (Suc n)
  define i where "i = randomIndex rs (length pool)"
  have ne: "pool \<noteq> []" using Suc.prems by auto
  then have i: "i < length pool" by (simp add: i_def randomIndex_less)
  have len: "n \<le> length (splice1 i pool)" using Suc.prems i by (simp add: splice1_length)
  have "mset ((acc @ [pool ! i]) @ splice1 i pool) = mset (acc @ pool)"
    using mset_nth_splice1[OF i] by simp
  then have "mset (map f ((acc @ [pool ! i]) @ splice1 i pool)) = mset (map f (acc @ pool))"
    by (metis mset_map)
  then have "distinct (map f ((acc @ [pool ! i]) @ splice1 i pool))"
    using Suc.prems(2) mset_eq_imp_distinct_iff by blast
  from Suc.IH[OF len this] show ?case using ne by (simp add: Let_def i_def)
qed

lemma map_word_mkRight: "map word (mkRight cs ws) = ws"
proof -
  have "map word (mkRight cs ws) = map snd (enumerate 0 ws)"
    by (simp add: mkRight_def comp_def case_prod_beta)
  then show ?thesis by simp
qed

lemma setupRound_review_fields:
  "words \<noteq> [] \<Longrightarrow>
   shuffledLeft (setupRound_review words rnd s) = shuffle (rr_left rnd) (pickRoundWords 5 (rr_index rnd) words words []) \<and>
   shuffledRight (setupRound_review words rnd s) = shuffle (rr_right rnd) (mkRight (rr_target rnd) (pickRoundWords 5 (rr_index rnd) words words [])) \<and>
   matchedPairs (setupRound_review words rnd s) = [] \<and>
   rv_selectedLeft (setupRound_review words rnd s) = None \<and>
   rv_currentRound (setupRound_review words rnd s) = rv_currentRound s \<and>
   rv_exits (setupRound_review words rnd s) = rv_exits s"
  by (simp add: setupRound_review_def Let_def)

lemma mset_right_words:
  "words \<noteq> [] \<Longrightarrow>
   mset (map word (shuffledRight (setupRound_review words rnd s))) = mset (pickRoundWords 5 (rr_index rnd) words words [])"
proof -
  assume w: "words \<noteq> []"
  have "mset (map word (shuffle rs (mkRight cs ws))) = mset ws" for rs cs ws
  proof -
    have "mset (map word (shuffle rs (mkRight cs ws))) = image_mset word (mset (shuffle rs (mkRight cs ws)))" by simp
    also have "\<dots> = image_mset word (mset (mkRight cs ws))" by (simp only: mset_shuffle)
    also have "\<dots> = mset (map word (mkRight cs ws))" by simp
    finally show ?thesis by (simp add: map_word_mkRight)
  qed
  then show ?thesis using w by (simp add: setupRound_review_fields)
qed

section \<open>Facts about stripping and chunking\<close>

lemma chunkLoop_step:
  "0 < length remaining \<Longrightarrow>
   chunkLoop rs remaining =
     take (randomIndex rs 3 + 2) remaining # chunkLoop (tl rs) (drop (randomIndex rs 3 + 2) remaining)"
  by (subst chunkLoop.simps) (simp add: Let_def)

lemma chunkLoop_empty: "chunkLoop rs [] = []"
  by (subst chunkLoop.simps) simp

lemma concat_chunkLoop: "concat (chunkLoop rs s) = s"
proof (induction rs s rule: chunkLoop.induct)
  case (1 rs remaining)
  show ?case
  proof (cases "length remaining > 0")
    case True
    from 1[OF True refl] chunkLoop_step[OF True] show ?thesis by simp
  next
    case False then show ?thesis by (simp add: chunkLoop_empty)
  qed
qed


















section \<open>Facts about the matching engines\<close>

lemma distinct_subset_length:
  "distinct ms \<Longrightarrow> set ms \<subseteq> f ` set xs \<Longrightarrow> length ms \<le> length xs"
proof -
  assume d: "distinct ms" and s: "set ms \<subseteq> f ` set xs"
  have "length ms = card (set ms)" using d by (simp add: distinct_card)
  also have "\<dots> \<le> card (f ` set xs)" using s by (simp add: card_mono)
  also have "\<dots> \<le> card (set xs)" by (simp add: card_image_le)
  also have "\<dots> \<le> length xs" by (rule card_length)
  finally show ?thesis .
qed

lemma full_match_distinct:
  "distinct ms \<Longrightarrow> set ms \<subseteq> f ` set xs \<Longrightarrow> length ms = length xs \<Longrightarrow> distinct (map f xs)"
proof -
  assume d: "distinct ms" and s: "set ms \<subseteq> f ` set xs" and l: "length ms = length xs"
  have "length xs = card (set ms)" using d l by (simp add: distinct_card)
  also have "\<dots> \<le> card (set (map f xs))" using s by (simp add: card_mono)
  finally have "length (map f xs) \<le> card (set (map f xs))" by simp
  moreover have "card (set (map f xs)) \<le> length (map f xs)" by (rule card_length)
  ultimately have "card (set (map f xs)) = length (map f xs)" by linarith
  then show ?thesis by (rule card_distinct)
qed

lemma review_click_frame:
  "shuffledLeft (review_click c s) = shuffledLeft s \<and>
   shuffledRight (review_click c s) = shuffledRight s \<and>
   rv_currentRound (review_click c s) = rv_currentRound s \<and>
   rv_exits (review_click c s) = rv_exits s"
  by (cases c) (simp_all add: handleLeftClick_def handleRightClick_def)

lemma review_click_inv: "review_inv s \<Longrightarrow> review_inv (review_click c s)"
  apply (cases c)
   apply (auto simp: review_inv_def handleLeftClick_def handleRightClick_def falsy_def
           split: option.splits)
  done

lemma review_click_prefix: "prefix (matchedPairs s) (matchedPairs (review_click c s))"
  by (cases c) (simp_all add: handleLeftClick_def handleRightClick_def)

lemma review_clicks_inv: "review_inv s \<Longrightarrow> review_inv (fold review_click cs s)"
  by (induction cs arbitrary: s) (simp_all add: review_click_inv)

lemma review_clicks_left: "shuffledLeft (fold review_click cs s) = shuffledLeft s"
  by (induction cs arbitrary: s) (simp_all add: review_click_frame)

lemma review_clicks_prefix: "prefix (matchedPairs s) (matchedPairs (fold review_click cs s))"
proof (induction cs arbitrary: s)
  case Nil then show ?case by simp
next
  case (Cons c cs)
  have "prefix (matchedPairs s) (matchedPairs (review_click c s))" by (rule review_click_prefix)
  also have "prefix \<dots> (matchedPairs (fold review_click cs (review_click c s)))" by (rule Cons.IH)
  finally show ?case by simp
qed

lemma review_inv_bound: "review_inv s \<Longrightarrow> length (matchedPairs s) \<le> length (shuffledLeft s)"
  unfolding review_inv_def by (blast intro: distinct_subset_length)

lemma quiz_click_frame:
  "matchingLeft (quiz_click c s) = matchingLeft s \<and>
   matchingRight (quiz_click c s) = matchingRight s \<and>
   currentRound (quiz_click c s) = currentRound s \<and>
   exits (quiz_click c s) = exits s"
  by (cases c) (simp_all add: handleMatchLeft_def handleMatchRight_def scheduleNext_def Let_def)

lemma quiz_click_inv: "quiz_inv s \<Longrightarrow> quiz_inv (quiz_click c s)"
  apply (cases c)
   apply (auto simp: quiz_inv_def handleMatchLeft_def handleMatchRight_def scheduleNext_def
                 falsy_def Let_def split: option.splits)
  done

lemma quiz_click_prefix: "prefix (matchingPairs s) (matchingPairs (quiz_click c s))"
  by (cases c) (simp_all add: handleMatchLeft_def handleMatchRight_def scheduleNext_def Let_def)

lemma quiz_clicks_inv: "quiz_inv s \<Longrightarrow> quiz_inv (fold quiz_click cs s)"
  by (induction cs arbitrary: s) (simp_all add: quiz_click_inv)

lemma quiz_clicks_left: "matchingLeft (fold quiz_click cs s) = matchingLeft s"
  by (induction cs arbitrary: s) (simp_all add: quiz_click_frame)

lemma quiz_clicks_prefix: "prefix (matchingPairs s) (matchingPairs (fold quiz_click cs s))"
proof (induction cs arbitrary: s)
  case Nil then show ?case by simp
next
  case (Cons c cs)
  have "prefix (matchingPairs s) (matchingPairs (quiz_click c s))" by (rule quiz_click_prefix)
  also have "prefix \<dots> (matchingPairs (fold quiz_click cs (quiz_click c s)))" by (rule Cons.IH)
  finally show ?case by simp
qed

lemma quiz_inv_bound: "quiz_inv s \<Longrightarrow> length (matchingPairs s) \<le> length (matchingLeft s)"
  unfolding quiz_inv_def by (blast intro: distinct_subset_length)

lemma setupRound_review_inv: "review_inv s \<Longrightarrow> review_inv (setupRound_review words rnd s)"
  by (simp add: setupRound_review_def review_inv_def Let_def)

lemma review_init_inv: "review_inv review_init"
  by (simp add: review_inv_def review_init_def)

lemma review_mount_inv: "review_inv (review_mount words rnd)"
  by (simp add: review_mount_def setupRound_review_inv review_init_inv)

lemma review_inv_exits: "review_inv (s\<lparr>rv_exits := n\<rparr>) = review_inv s"
  by (simp add: review_inv_def)

lemma review_inv_round: "review_inv (s\<lparr>rv_currentRound := n\<rparr>) = review_inv s"
  by (simp add: review_inv_def)

lemma handleNextRound_inv: "review_inv s \<Longrightarrow> review_inv (handleNextRound words rnd s)"
  by (simp add: handleNextRound_def setupRound_review_inv review_inv_exits review_inv_round)

lemma review_step_inv: "review_inv s \<Longrightarrow> review_inv (review_step words s e)"
  by (cases e) (simp_all add: review_click_inv handleNextRound_inv review_inv_exits)

lemma review_run_inv: "review_inv s \<Longrightarrow> review_inv (review_run words s evs)"
  unfolding review_run_def by (induction evs arbitrary: s) (simp_all add: review_step_inv)

lemma setupRound_review_round:
  "rv_currentRound (setupRound_review words rnd s) = rv_currentRound s \<and>
   rv_exits (setupRound_review words rnd s) = rv_exits s"
  by (simp add: setupRound_review_def Let_def)

lemma review_step_round:
  "1 \<le> rv_currentRound s \<and> rv_currentRound s \<le> TOTAL_ROUNDS \<Longrightarrow>
   1 \<le> rv_currentRound (review_step words s e) \<and> rv_currentRound (review_step words s e) \<le> TOTAL_ROUNDS"
  by (cases e) (auto simp: review_click_frame handleNextRound_def setupRound_review_round)

lemma review_run_round:
  "1 \<le> rv_currentRound s \<and> rv_currentRound s \<le> TOTAL_ROUNDS \<Longrightarrow>
   1 \<le> rv_currentRound (review_run words s evs) \<and> rv_currentRound (review_run words s evs) \<le> TOTAL_ROUNDS"
  unfolding review_run_def
proof (induction evs arbitrary: s)
  case Nil then show ?case by simp
next
  case (Cons e evs)
  from review_step_round[OF Cons.prems] Cons.IH show ?case by simp
qed

lemma review_mount_round: "rv_currentRound (review_mount words rnd) = 1"
  by (simp add: review_mount_def setupRound_review_round review_init_def)

lemma setupRound_frame:
  "currentRound (setupRound words rnd s) = currentRound s \<and>
   exits (setupRound words rnd s) = exits s \<and>
   timers (setupRound words rnd s) = timers s"
  by (simp add: setupRound_def Let_def split: QuizType.splits)

lemma setupRound_inv: "quiz_inv s \<Longrightarrow> quiz_inv (setupRound words rnd s)"
  by (simp add: setupRound_def quiz_inv_def Let_def split: QuizType.splits)

lemma quiz_inv_upd:
  "quiz_inv (s\<lparr>exits := n\<rparr>) = quiz_inv s"
  "quiz_inv (s\<lparr>timers := ts\<rparr>) = quiz_inv s"
  "quiz_inv (s\<lparr>currentRound := r\<rparr>) = quiz_inv s"
  "quiz_inv (s\<lparr>typingInput := t\<rparr>) = quiz_inv s"
  by (simp_all add: quiz_inv_def)

lemma handleNext_inv: "quiz_inv s \<Longrightarrow> quiz_inv (handleNext cr words rnd s)"
  by (simp add: handleNext_def setupRound_inv quiz_inv_upd)

lemma fireTimer_inv: "quiz_inv s \<Longrightarrow> quiz_inv (fireTimer k words rnd s)"
  by (simp add: fireTimer_def Let_def handleNext_inv quiz_inv_upd)

lemma check_inv:
  "quiz_inv (checkTyping s) = quiz_inv s"
  "quiz_inv (checkSentence s) = quiz_inv s"
  "quiz_inv (checkListening i s) = quiz_inv s"
  "quiz_inv (toggleSentenceBlock b u s) = quiz_inv s"
  by (simp_all add: checkTyping_def checkSentence_def checkListening_def toggleSentenceBlock_def
        scheduleNext_def quiz_inv_def Let_def split: option.splits)

lemma quiz_step_inv: "quiz_inv s \<Longrightarrow> quiz_inv (quiz_step words s e)"
  by (cases e)
     (simp_all add: quiz_click_inv fireTimer_inv check_inv quiz_inv_upd clickOption_def)

lemma quiz_run_inv: "quiz_inv s \<Longrightarrow> quiz_inv (quiz_run words s evs)"
  unfolding quiz_run_def by (induction evs arbitrary: s) (simp_all add: quiz_step_inv)

lemma quiz_mount_inv: "quiz_inv (quiz_mount words rnd)"
proof -
  have "quiz_inv quiz_init" by (simp add: quiz_inv_def quiz_init_def)
  then show ?thesis by (simp add: quiz_mount_def setupRound_inv)
qed

lemma noop_review:
  "(i \<in> set (matchedPairs r) \<longrightarrow> handleLeftClick i r = r \<and> handleRightClick i r = r) \<and>
   (rv_selectedLeft r = None \<longrightarrow> handleRightClick i r = r)"
  by (simp add: handleLeftClick_def handleRightClick_def falsy_def)

lemma noop_quiz:
  "(i \<in> set (matchingPairs q) \<longrightarrow> handleMatchLeft i q = q \<and> handleMatchRight i q = q) \<and>
   (selectedLeft q = None \<longrightarrow> handleMatchRight i q = q)"
  by (simp add: handleMatchLeft_def handleMatchRight_def falsy_def)

lemma setupRound_review_left:
  "words \<noteq> [] \<Longrightarrow>
   set (shuffledLeft (setupRound_review words rnd s)) \<subseteq> set words \<and>
   length (shuffledLeft (setupRound_review words rnd s)) = 5"
proof -
  assume ne: "words \<noteq> []"
  have "set (pickRoundWords 5 (rr_index rnd) words words []) \<subseteq> set words"
    using ne by (intro set_pickRoundWords) auto
  moreover have "length (pickRoundWords 5 (rr_index rnd) words words []) = 5"
    by (simp only: length_pickRoundWords) simp
  ultimately show ?thesis
    using ne by (simp add: setupRound_review_fields set_shuffle length_shuffle)
qed

lemma review_step_left:
  assumes a: "set (shuffledLeft s) \<subseteq> set words \<and> length (shuffledLeft s) = (if words = [] then 0 else 5)"
  shows "set (shuffledLeft (review_step words s e)) \<subseteq> set words \<and>
   length (shuffledLeft (review_step words s e)) = (if words = [] then 0 else 5)"
proof (cases e)
  case (Click c) then show ?thesis using a by (auto simp: review_click_frame split: if_splits)
next
  case (NextRoundClick rnd)
  show ?thesis
  proof (cases "words = []")
    case True then show ?thesis using a NextRoundClick by (auto split: if_splits)
  next
    case False
    from setupRound_review_left[OF False] a False show ?thesis
      using NextRoundClick by (simp add: handleNextRound_def)
  qed
next
  case FinishClick then show ?thesis using a by (auto split: if_splits)
next
  case ExitClick then show ?thesis using a by (auto split: if_splits)
qed

lemma review_mount_left:
  "set (shuffledLeft (review_mount words rnd)) \<subseteq> set words \<and>
   length (shuffledLeft (review_mount words rnd)) = (if words = [] then 0 else 5)"
proof (cases "words = []")
  case True then show ?thesis by (simp add: review_mount_def setupRound_review_def review_init_def)
next
  case False
  from setupRound_review_left[OF False] False show ?thesis by (simp add: review_mount_def)
qed

lemma review_run_left:
  "set (shuffledLeft s) \<subseteq> set words \<and> length (shuffledLeft s) = (if words = [] then 0 else 5) \<Longrightarrow>
   set (shuffledLeft (review_run words s evs)) \<subseteq> set words \<and>
   length (shuffledLeft (review_run words s evs)) = (if words = [] then 0 else 5)"
  unfolding review_run_def
proof (induction evs arbitrary: s)
  case Nil then show ?case by simp
next
  case (Cons e evs)
  from Cons.IH[OF review_step_left[OF Cons.prems]] show ?case by simp
qed

lemma review_inv_complete:
  "review_inv s \<Longrightarrow> isRoundComplete s \<Longrightarrow> distinct (map id_w (shuffledLeft s))"
  unfolding review_inv_def isRoundComplete_def by (blast intro: full_match_distinct)

lemma few_words_not_distinct:
  "set xs \<subseteq> set words \<Longrightarrow> length words < length xs \<Longrightarrow> \<not> distinct (map f xs)"
proof
  assume s: "set xs \<subseteq> set words" and l: "length words < length xs" and d: "distinct (map f xs)"
  have "length xs = card (set (map f xs))" using d by (metis distinct_card length_map)
  also have "\<dots> \<le> card (f ` set words)" using s by (auto intro: card_mono)
  also have "\<dots> \<le> card (set words)" by (simp add: card_image_le)
  also have "\<dots> \<le> length words" by (rule card_length)
  finally show False using l by simp
qed

section \<open>Facts about the rounds of QuizMode\<close>

lemma setupRound_current:
  "words \<noteq> [] \<Longrightarrow>
   currentWord (setupRound words rnd s) = Some (words ! randomIndex (rq_word rnd) (length words)) \<and>
   currentType (setupRound words rnd s) = types ! randomIndex (rq_type rnd) (length types) \<and>
   typingInput (setupRound words rnd s) = [] \<and>
   typingFeedback (setupRound words rnd s) = NONE \<and>
   sentenceFeedback (setupRound words rnd s) = NONE \<and>
   listeningFeedback (setupRound words rnd s) = NONE \<and>
   selectedOption (setupRound words rnd s) = None \<and>
   userSentence (setupRound words rnd s) = []"
  by (simp add: setupRound_def Let_def split: QuizType.splits)

lemma setupRound_word_in:
  "words \<noteq> [] \<Longrightarrow> currentWord (setupRound words rnd s) = Some w \<Longrightarrow> w \<in> set words"
  by (auto simp: setupRound_current randomIndex_less)

lemma setupRound_sentence:
  "words \<noteq> [] \<Longrightarrow> currentType (setupRound words rnd s) = SENTENCE \<Longrightarrow>
   currentWord (setupRound words rnd s) = Some w \<Longrightarrow>
   sentenceBlocks (setupRound words rnd s) =
     shuffle (rq_blocks rnd) (mkBlocks (chunkLoop (rq_len rnd) (stripBrackets (exampleSentence w))))"
  by (auto simp: setupRound_def Let_def split: QuizType.splits if_splits)

lemma setupRound_listening:
  "words \<noteq> [] \<Longrightarrow> currentType (setupRound words rnd s) = LISTENING \<Longrightarrow>
   currentWord (setupRound words rnd s) = Some w \<Longrightarrow>
   listeningOptions (setupRound words rnd s) =
     shuffle (rq_options rnd) (w # take 3 (shuffle (rq_wrong rnd) (filter (\<lambda>x. id_w x \<noteq> id_w w) words)))"
  by (auto simp: setupRound_def Let_def split: QuizType.splits if_splits)

lemma setupRound_matching:
  "words \<noteq> [] \<Longrightarrow> currentType (setupRound words rnd s) = MATCHING \<Longrightarrow>
   matchingLeft (setupRound words rnd s) = take 3 (shuffle (rq_pool rnd) words) \<and>
   matchingRight (setupRound words rnd s) =
     shuffle (rq_right rnd) (mkMatchRight (rq_text rnd) (take 3 (shuffle (rq_pool rnd) words))) \<and>
   matchingPairs (setupRound words rnd s) = [] \<and> selectedLeft (setupRound words rnd s) = None"
  by (auto simp: setupRound_def Let_def split: QuizType.splits if_splits)

lemma map_text_mkBlocks: "map text_b (mkBlocks chunks) = chunks"
proof -
  have "map text_b (mkBlocks chunks) = map snd (enumerate 0 chunks)"
    by (simp add: mkBlocks_def comp_def case_prod_beta)
  then show ?thesis by simp
qed

lemma map_id_mkBlocks: "map id_b (mkBlocks chunks) = [0..<length chunks]"
proof -
  have "map id_b (mkBlocks chunks) = map fst (enumerate 0 chunks)"
    by (simp add: mkBlocks_def comp_def case_prod_beta)
  then show ?thesis by simp
qed

lemma distinct_ids_mkBlocks: "distinct (map id_b (mkBlocks chunks))"
  by (simp add: map_id_mkBlocks)

lemma assemble_all:
  "distinct (map id_b bs) \<Longrightarrow> set bs \<subseteq> set (sentenceBlocks s) \<Longrightarrow> panel words s SENTENCE \<Longrightarrow>
   userSentence (quiz_run words s (assemble bs)) = userSentence s @ bs \<and>
   currentWord (quiz_run words s (assemble bs)) = currentWord s \<and>
   timers (quiz_run words s (assemble bs)) = timers s \<and>
   currentRound (quiz_run words s (assemble bs)) = currentRound s \<and>
   panel words (quiz_run words s (assemble bs)) SENTENCE"
proof (induction bs arbitrary: s)
  case Nil then show ?case by (simp add: quiz_run_def assemble_def)
next
  case (Cons b bs)
  let ?s1 = "toggleSentenceBlock b False s"
  have b_in: "b \<in> set (sentenceBlocks s)" using Cons.prems(2) by simp
  have step: "quiz_step words s (ToggleBlock b False) = ?s1"
    using Cons.prems(3) b_in by simp
  have u1: "userSentence ?s1 = userSentence s @ [b]"
    and p1: "sentenceBlocks ?s1 = filter (\<lambda>x. id_b x \<noteq> id_b b) (sentenceBlocks s)"
    and f1: "currentWord ?s1 = currentWord s" "timers ?s1 = timers s" "currentRound ?s1 = currentRound s"
    by (simp_all add: toggleSentenceBlock_def)
  have pan: "panel words ?s1 SENTENCE"
    using Cons.prems(3) by (simp add: panel_def toggleSentenceBlock_def)
  have d: "distinct (map id_b bs)" using Cons.prems(1) by simp
  have ids: "\<forall>x\<in>set bs. id_b x \<noteq> id_b b" using Cons.prems(1) by (force simp: image_iff)
  have sub: "set bs \<subseteq> set (sentenceBlocks ?s1)"
    using Cons.prems(2) ids by (auto simp: p1)
  have run: "quiz_run words s (assemble (b # bs)) = quiz_run words ?s1 (assemble bs)"
    using step by (simp add: quiz_run_def assemble_def)
  from Cons.IH[OF d sub pan] have IH:
    "userSentence (quiz_run words ?s1 (assemble bs)) = userSentence ?s1 @ bs"
    "currentWord (quiz_run words ?s1 (assemble bs)) = currentWord ?s1"
    "timers (quiz_run words ?s1 (assemble bs)) = timers ?s1"
    "currentRound (quiz_run words ?s1 (assemble bs)) = currentRound ?s1"
    "panel words (quiz_run words ?s1 (assemble bs)) SENTENCE" by simp_all
  show ?case unfolding run using IH u1 f1 by simp
qed

lemma quiz_run_snoc: "quiz_run words s (evs @ [e]) = quiz_step words (quiz_run words s evs) e"
  by (simp add: quiz_run_def)

lemma quiz_run_append: "quiz_run words s (xs @ ys) = quiz_run words (quiz_run words s xs) ys"
  by (simp add: quiz_run_def)

lemma checkSentence_result:
  "currentWord t = Some w \<Longrightarrow>
   (concat (map text_b (userSentence t)) = stripBrackets (exampleSentence w) \<longrightarrow>
      sentenceFeedback (checkSentence t) = CORRECT \<and> timers (checkSentence t) = timers t @ [currentRound t]) \<and>
   (concat (map text_b (userSentence t)) \<noteq> stripBrackets (exampleSentence w) \<longrightarrow>
      sentenceFeedback (checkSentence t) = WRONG \<and> timers (checkSentence t) = timers t)"
  by (simp add: checkSentence_def scheduleNext_def Let_def)

lemma checkTyping_result:
  "currentWord s = Some w \<Longrightarrow>
   (trim (typingInput s) = hiragana w \<longrightarrow>
      typingFeedback (checkTyping s) = CORRECT \<and> timers (checkTyping s) = timers s @ [currentRound s]) \<and>
   (trim (typingInput s) \<noteq> hiragana w \<longrightarrow>
      typingFeedback (checkTyping s) = WRONG \<and> timers (checkTyping s) = timers s) \<and>
   currentWord (checkTyping s) = Some w \<and> currentRound (checkTyping s) = currentRound s \<and>
   currentType (checkTyping s) = currentType s \<and> exits (checkTyping s) = exits s"
  by (simp add: checkTyping_def scheduleNext_def)

lemma attempts_wrong:
  "panel words s TYPING \<Longrightarrow> currentWord s = Some w \<Longrightarrow> \<forall>t\<in>set ts. trim t \<noteq> hiragana w \<Longrightarrow>
   panel words (quiz_run words s (attempts ts)) TYPING \<and>
   currentWord (quiz_run words s (attempts ts)) = Some w \<and>
   timers (quiz_run words s (attempts ts)) = timers s \<and>
   currentRound (quiz_run words s (attempts ts)) = currentRound s"
proof (induction ts arbitrary: s)
  case Nil then show ?case by (simp add: attempts_def quiz_run_def)
next
  case (Cons t ts)
  let ?s1 = "s\<lparr>typingInput := t\<rparr>"
  let ?s2 = "checkTyping ?s1"
  have p1: "panel words ?s1 TYPING" and w1: "currentWord ?s1 = Some w"
    using Cons.prems by (simp_all add: panel_def)
  have wrong: "trim (typingInput ?s1) \<noteq> hiragana w" using Cons.prems(3) by simp
  from checkTyping_result[OF w1] wrong have
    f: "timers ?s2 = timers s" "currentWord ?s2 = Some w" "currentRound ?s2 = currentRound s"
       "currentType ?s2 = currentType s" "exits ?s2 = exits s" by simp_all
  have p2: "panel words ?s2 TYPING" using Cons.prems(1) f by (simp add: panel_def)
  have run: "quiz_run words s (attempts (t # ts)) = quiz_run words ?s2 (attempts ts)"
    using Cons.prems(1) p1 by (simp add: attempts_def quiz_run_def)
  have rest: "\<forall>t\<in>set ts. trim t \<noteq> hiragana w" using Cons.prems(3) by simp
  from Cons.IH[OF p2 f(2) rest] f show ?case unfolding run by simp
qed

lemma filter_same_id:
  "distinct (map f xs) \<Longrightarrow> w \<in> set xs \<Longrightarrow> filter (\<lambda>x. f x = f w) xs = [w]"
proof (induction xs)
  case Nil then show ?case by simp
next
  case (Cons x xs)
  show ?case
  proof (cases "x = w")
    case True
    have "f w \<notin> f ` set xs" using Cons.prems(1) True by simp
    then have "\<forall>x\<in>set xs. f x \<noteq> f w" by (force simp: image_iff)
    then have "filter (\<lambda>x. f x = f w) xs = []" by (simp add: filter_empty_conv)
    with True show ?thesis by simp
  next
    case False
    with Cons.prems have in_xs: "w \<in> set xs" by simp
    then have "f x \<noteq> f w" using Cons.prems(1) by (auto simp: image_iff)
    moreover have "filter (\<lambda>x. f x = f w) xs = [w]" using Cons.IH Cons.prems(1) in_xs by simp
    ultimately show ?thesis by simp
  qed
qed

lemma filter_other_length:
  "distinct (map f xs) \<Longrightarrow> w \<in> set xs \<Longrightarrow> length (filter (\<lambda>x. f x \<noteq> f w) xs) = length xs - 1"
proof -
  assume d: "distinct (map f xs)" and w: "w \<in> set xs"
  have "length (filter (\<lambda>x. f x = f w) xs) + length (filter (\<lambda>x. \<not> f x = f w) xs) = length xs"
    by (rule sum_length_filter_compl)
  with filter_same_id[OF d w] show ?thesis by simp
qed

lemma listening_options:
  assumes d: "distinct (map id_w words)" and n: "4 \<le> length words" and w: "w \<in> set words"
    and opts_def: "opts = shuffle r2 (w # take 3 (shuffle r1 (filter (\<lambda>x. id_w x \<noteq> id_w w) words)))"
  shows "length opts = 4 \<and> distinct (map id_w opts) \<and> w \<in> set opts \<and> set opts \<subseteq> set words \<and>
         length (filter (\<lambda>x. id_w x = id_w w) opts) = 1 \<and>
         (\<forall>x\<in>set opts. x = w \<or> id_w x \<noteq> id_w w)"
proof -
  let ?F = "filter (\<lambda>x. id_w x \<noteq> id_w w) words"
  let ?W = "take 3 (shuffle r1 ?F)"
  have lenF: "length ?F = length words - 1" using filter_other_length[OF d w] .
  have "3 \<le> length ?F" using lenF n by linarith
  then have lenW: "length ?W = 3" by (simp add: length_shuffle min_def)
  have "length opts = length (w # ?W)" by (simp only: opts_def length_shuffle)
  then have "length opts = Suc (length ?W)" by (simp only: length_Cons)
  with lenW have len: "length opts = 4" by linarith
  have dF: "distinct (map id_w ?F)" using d by (simp add: distinct_map_filter)
  have dS: "distinct (map id_w (shuffle r1 ?F))" using dF by (simp add: distinct_map_shuffle)
  have dW: "distinct (map id_w ?W)" using dS by (simp add: take_map[symmetric])
  have setW: "set ?W \<subseteq> set ?F" using set_take_subset[of 3 "shuffle r1 ?F"] by (simp add: set_shuffle)
  have notin: "id_w w \<notin> id_w ` set ?W" using setW by auto
  have dist: "distinct (map id_w opts)"
    using dW notin by (simp add: opts_def distinct_map_shuffle)
  have win: "w \<in> set opts" by (simp add: opts_def set_shuffle)
  have sub: "set opts \<subseteq> set words" using setW w by (auto simp: opts_def set_shuffle)
  have one: "length (filter (\<lambda>x. id_w x = id_w w) opts) = 1"
    using filter_same_id[OF dist win] by simp
  have oth: "\<forall>x\<in>set opts. x = w \<or> id_w x \<noteq> id_w w"
    using setW by (auto simp: opts_def set_shuffle)
  show ?thesis using len dist win sub one oth by blast
qed

lemma checkListening_result:
  "currentWord t = Some w \<Longrightarrow>
   listeningFeedback (checkListening (id_w w) t) = CORRECT \<and>
   timers (checkListening (id_w w) t) = timers t @ [currentRound t] \<and>
   selectedOption (checkListening i t) = Some i \<and>
   listeningOptions (checkListening i t) = listeningOptions t \<and>
   (i \<noteq> id_w w \<longrightarrow> listeningFeedback (checkListening i t) = WRONG \<and>
                     timers (checkListening i t) = timers t)"
  by (simp add: checkListening_def scheduleNext_def Let_def)

lemma quiz_click_timers: "prefix (timers s) (timers (quiz_click c s))"
  by (cases c) (simp_all add: handleMatchLeft_def handleMatchRight_def scheduleNext_def Let_def)

lemma check_timers:
  "prefix (timers s) (timers (checkTyping s))"
  "prefix (timers s) (timers (checkSentence s))"
  "prefix (timers s) (timers (checkListening i s))"
  "timers (toggleSentenceBlock b u s) = timers s"
  by (simp_all add: checkTyping_def checkSentence_def checkListening_def toggleSentenceBlock_def
        scheduleNext_def Let_def split: option.splits)

lemma no_handler_cancels:
  "(\<forall>j r. e \<noteq> TimerFires j r) \<Longrightarrow> prefix (timers s) (timers (quiz_step words s e))"
  by (cases e) (simp_all add: quiz_click_timers check_timers clickOption_def)

lemma fireTimer_effect:
  "k < length (timers s) \<Longrightarrow>
   timers (fireTimer k words rnd s) = splice1 k (timers s) \<and>
   (exits s = 0 \<longrightarrow> timers s ! k < TOTAL_ROUNDS \<longrightarrow>
      fireTimer k words rnd s =
        setupRound words rnd (s\<lparr>timers := splice1 k (timers s), currentRound := currentRound s + 1\<rparr>) \<and>
      currentRound (fireTimer k words rnd s) = currentRound s + 1 \<and>
      exits (fireTimer k words rnd s) = 0) \<and>
   (\<not> timers s ! k < TOTAL_ROUNDS \<longrightarrow>
      exits (fireTimer k words rnd s) = exits s + 1 \<and>
      currentRound (fireTimer k words rnd s) = currentRound s) \<and>
   (0 < exits s \<longrightarrow> timers s ! k < TOTAL_ROUNDS \<longrightarrow>
      fireTimer k words rnd s = s\<lparr>timers := splice1 k (timers s)\<rparr>)"
  by (simp add: fireTimer_def handleNext_def Let_def setupRound_frame)

text \<open>
  The advance operations on their own, and the round index over a ReviewMode session.
\<close>

lemma advance_in_own_round:
  "(cr < TOTAL_ROUNDS \<longrightarrow>
      currentRound (handleNext cr words rnd s) = currentRound s + 1 \<and>
      exits (handleNext cr words rnd s) = exits s) \<and>
   (\<not> cr < TOTAL_ROUNDS \<longrightarrow>
      currentRound (handleNext cr words rnd s) = currentRound s \<and>
      exits (handleNext cr words rnd s) = exits s + 1) \<and>
   (cr = currentRound s \<longrightarrow> currentRound s \<le> TOTAL_ROUNDS \<longrightarrow>
      currentRound (handleNext cr words rnd s) \<le> TOTAL_ROUNDS) \<and>
   (rv_currentRound r < TOTAL_ROUNDS \<longrightarrow>
      rv_currentRound (handleNextRound words rr r) = rv_currentRound r + 1 \<and>
      rv_exits (handleNextRound words rr r) = rv_exits r) \<and>
   (\<not> rv_currentRound r < TOTAL_ROUNDS \<longrightarrow>
      rv_currentRound (handleNextRound words rr r) = rv_currentRound r \<and>
      rv_exits (handleNextRound words rr r) = rv_exits r + 1)"
  by (simp add: handleNext_def handleNextRound_def setupRound_frame setupRound_review_round)

lemma review_session_round:
  "1 \<le> rv_currentRound (review_run words (review_mount words rnd) evs) \<and>
   rv_currentRound (review_run words (review_mount words rnd) evs) \<le> TOTAL_ROUNDS"
  by (rule review_run_round) (simp add: review_mount_round TOTAL_ROUNDS_def)

lemma quiz_mount_frame:
  "timers (quiz_mount words rnd) = [] \<and> exits (quiz_mount words rnd) = 0 \<and>
   currentRound (quiz_mount words rnd) = 1"
  by (simp add: quiz_mount_def setupRound_frame quiz_init_def)

lemma few_words_step:
  "length words < 4 \<Longrightarrow> timers s = [] \<Longrightarrow>
   timers (quiz_step words s e) = [] \<and> (quiz_step words s e)\<lparr>exits := 0\<rparr> = s\<lparr>exits := 0\<rparr>"
  by (cases e) (simp_all add: panel_def fireTimer_def)

lemma few_words_run:
  "length words < 4 \<Longrightarrow> timers s = [] \<Longrightarrow>
   timers (quiz_run words s evs) = [] \<and> (quiz_run words s evs)\<lparr>exits := 0\<rparr> = s\<lparr>exits := 0\<rparr>"
  unfolding quiz_run_def
proof (induction evs arbitrary: s)
  case Nil then show ?case by simp
next
  case (Cons e evs)
  from few_words_step[OF Cons.prems, of e] have
    t: "timers (quiz_step words s e) = []" and q: "(quiz_step words s e)\<lparr>exits := 0\<rparr> = s\<lparr>exits := 0\<rparr>"
    by simp_all
  from Cons.IH[OF Cons.prems(1) t] q show ?case by simp
qed

lemma fireTimer_left:
  "k < length (timers s) \<Longrightarrow> 0 < exits s \<Longrightarrow>
   (timers s ! k < TOTAL_ROUNDS \<longrightarrow> fireTimer k words rnd s = s\<lparr>timers := splice1 k (timers s)\<rparr>) \<and>
   (\<not> timers s ! k < TOTAL_ROUNDS \<longrightarrow>
      fireTimer k words rnd s = s\<lparr>timers := splice1 k (timers s), exits := exits s + 1\<rparr>)"
  by (simp add: fireTimer_def Let_def)

section \<open>The claims\<close>

subsection \<open>C1: the round index\<close>

text \<open>
  C1 holds for an advance that runs in the round in which its handler was created
  (\<open>advance_in_own_round\<close>), and in every ReviewMode session the index stays between
  1 and \<open>TOTAL_ROUNDS\<close> (\<open>review_session_round\<close>). It does not hold for every
  QuizMode session: the Typing panel keeps accepting the right response while the
  advance is pending, each submission schedules \<open>handleNext\<close>, and each callback
  tests the round number of its own render. In round 9 two submissions of the right
  response advance the index twice, to 11.
\<close>

theorem C1_double_submit_exceeds_total:
  "currentRound exRound9 = 9 \<and> exits exRound9 = 0 \<and> timers exRound9 = [] \<and>
   currentRound (quiz_run exWords4 exRound9 exTwice) = 11 \<and>
   exits (quiz_run exWords4 exRound9 exTwice) = 0 \<and>
   \<not> currentRound (quiz_run exWords4 exRound9 exTwice) \<le> TOTAL_ROUNDS"
  by code_simp

subsection \<open>C2: the matching engine\<close>

text \<open>
  C2. In both matching engines (ReviewMode and the matching round of QuizMode), from
  any state \<open>r\<close>, \<open>q\<close> that a session reaches and for every sequence \<open>cs\<close> of
  clicks on the left and right buttons of the round: the matched list only grows
  (the old list is a prefix of the new one), its length never exceeds the number of
  pairs of the round (the length of the left column), and a click on an identifier
  that is already matched, on either side, or on a right target while nothing is
  selected on the left, leaves the whole state unchanged.
\<close>

theorem C2_matching_engine:
  "r = review_run words (review_mount words rr) evs \<Longrightarrow>
   q = quiz_run words (quiz_mount words rq) qevs \<Longrightarrow>
   prefix (matchedPairs r) (matchedPairs (fold review_click cs r)) \<and>
   length (matchedPairs (fold review_click cs r)) \<le> length (shuffledLeft r) \<and>
   prefix (matchingPairs q) (matchingPairs (fold quiz_click cs q)) \<and>
   length (matchingPairs (fold quiz_click cs q)) \<le> length (matchingLeft q) \<and>
   (i \<in> set (matchedPairs r) \<longrightarrow> handleLeftClick i r = r \<and> handleRightClick i r = r) \<and>
   (rv_selectedLeft r = None \<longrightarrow> handleRightClick i r = r) \<and>
   (i \<in> set (matchingPairs q) \<longrightarrow> handleMatchLeft i q = q \<and> handleMatchRight i q = q) \<and>
   (selectedLeft q = None \<longrightarrow> handleMatchRight i q = q)"
proof -
  assume r: "r = review_run words (review_mount words rr) evs"
    and q: "q = quiz_run words (quiz_mount words rq) qevs"
  have ri: "review_inv r" unfolding r by (intro review_run_inv review_mount_inv)
  have qi: "quiz_inv q" unfolding q by (intro quiz_run_inv quiz_mount_inv)
  have a: "prefix (matchedPairs r) (matchedPairs (fold review_click cs r))"
    by (rule review_clicks_prefix)
  have "length (matchedPairs (fold review_click cs r)) \<le> length (shuffledLeft (fold review_click cs r))"
    using ri by (intro review_inv_bound review_clicks_inv)
  then have b: "length (matchedPairs (fold review_click cs r)) \<le> length (shuffledLeft r)"
    by (simp only: review_clicks_left)
  have c: "prefix (matchingPairs q) (matchingPairs (fold quiz_click cs q))"
    by (rule quiz_clicks_prefix)
  have "length (matchingPairs (fold quiz_click cs q)) \<le> length (matchingLeft (fold quiz_click cs q))"
    using qi by (intro quiz_inv_bound quiz_clicks_inv)
  then have d: "length (matchingPairs (fold quiz_click cs q)) \<le> length (matchingLeft q)"
    by (simp only: quiz_clicks_left)
  show ?thesis using a b c d noop_review[of i r] noop_quiz[of i q] by blast
qed

theorem C2_matching_engine_witness:
  "matchedPairs exReviewRound = [[0x61]] \<and>
   matchedPairs (fold review_click exClicks exReviewRound) = [[0x61], [0x62]] \<and>
   prefix (matchedPairs exReviewRound) (matchedPairs (fold review_click exClicks exReviewRound)) \<and>
   length (matchedPairs (fold review_click exClicks exReviewRound)) \<le> length (shuffledLeft exReviewRound) \<and>
   matchingPairs exQuizRound = [[0x61]] \<and>
   prefix (matchingPairs exQuizRound) (matchingPairs (fold quiz_click exClicks exQuizRound)) \<and>
   length (matchingPairs (fold quiz_click exClicks exQuizRound)) \<le> length (matchingLeft exQuizRound) \<and>
   handleLeftClick [0x61] exReviewRound = exReviewRound \<and>
   handleRightClick [0x61] exReviewRound = exReviewRound \<and>
   handleRightClick [0x62] exReviewRound = exReviewRound \<and>
   handleMatchLeft [0x61] exQuizRound = exQuizRound \<and>
   handleMatchRight [0x61] exQuizRound = exQuizRound \<and>
   handleMatchRight [0x62] exQuizRound = exQuizRound"
proof -
  have r: "exReviewRound = review_run exWords5 (review_mount exWords5 noDraws)
     [Click (LeftClick [0x61]), Click (RightClick [0x61])]" by (rule exReviewRound_def)
  have q: "exQuizRound = quiz_run exWords5 (quiz_mount exWords5 (drawsFor 0))
     [MatchEv (LeftClick [0x61]), MatchEv (RightClick [0x61])]" by (rule exQuizRound_def)
  have m1: "matchedPairs exReviewRound = [[0x61]]" by code_simp
  have m2: "matchedPairs (fold review_click exClicks exReviewRound) = [[0x61], [0x62]]" by code_simp
  have m3: "matchingPairs exQuizRound = [[0x61]]" by code_simp
  have s1: "rv_selectedLeft exReviewRound = None" by code_simp
  have s2: "selectedLeft exQuizRound = None" by code_simp
  show ?thesis
    using C2_matching_engine [OF r q, of exClicks "[0x61]"]
          C2_matching_engine [OF r q, of exClicks "[0x62]"] m1 m2 m3 s1 s2
    by simp
qed

subsection \<open>C3: validating a typed response\<close>

text \<open>
  C3. In a Typing round for the word \<open>w\<close>, \<open>checkTyping\<close> sets the feedback to
  \<open>CORRECT\<close> exactly when the trimmed input equals \<open>w\<close>'s reading, and it schedules
  the advance exactly then. Otherwise the feedback is \<open>WRONG\<close>, the panel shows the
  reading, nothing is scheduled and the round stays as it is. There is no retry
  limit: after any number of wrong responses \<open>ts\<close> a right one is accepted, and
  that one alone has scheduled an advance.
\<close>

theorem C3_typing_validation:
  "panel words s TYPING \<Longrightarrow> currentWord s = Some w \<Longrightarrow>
   (typingFeedback (checkTyping s) = CORRECT) = (trim (typingInput s) = hiragana w) \<and>
   (timers (checkTyping s) = timers s @ [currentRound s]) = (trim (typingInput s) = hiragana w) \<and>
   (trim (typingInput s) \<noteq> hiragana w \<longrightarrow>
      typingFeedback (checkTyping s) = WRONG \<and> typingReveal (checkTyping s) = Some (hiragana w) \<and>
      timers (checkTyping s) = timers s \<and> currentRound (checkTyping s) = currentRound s \<and>
      panel words (checkTyping s) TYPING) \<and>
   ((\<forall>t\<in>set ts. trim t \<noteq> hiragana w) \<longrightarrow> trim t' = hiragana w \<longrightarrow>
      typingFeedback (quiz_run words s (attempts (ts @ [t']))) = CORRECT \<and>
      timers (quiz_run words s (attempts (ts @ [t']))) = timers s @ [currentRound s])"
proof -
  assume pan: "panel words s TYPING" and w: "currentWord s = Some w"
  note r = checkTyping_result[OF w]
  have a: "(typingFeedback (checkTyping s) = CORRECT) = (trim (typingInput s) = hiragana w)"
    using r by auto
  have b: "(timers (checkTyping s) = timers s @ [currentRound s]) = (trim (typingInput s) = hiragana w)"
    using r by auto
  have c: "trim (typingInput s) \<noteq> hiragana w \<longrightarrow>
      typingFeedback (checkTyping s) = WRONG \<and> typingReveal (checkTyping s) = Some (hiragana w) \<and>
      timers (checkTyping s) = timers s \<and> currentRound (checkTyping s) = currentRound s \<and>
      panel words (checkTyping s) TYPING"
    using r pan by (auto simp: typingReveal_def panel_def)
  have d: "(\<forall>t\<in>set ts. trim t \<noteq> hiragana w) \<longrightarrow> trim t' = hiragana w \<longrightarrow>
      typingFeedback (quiz_run words s (attempts (ts @ [t']))) = CORRECT \<and>
      timers (quiz_run words s (attempts (ts @ [t']))) = timers s @ [currentRound s]"
  proof (intro impI)
    assume wr: "\<forall>t\<in>set ts. trim t \<noteq> hiragana w" and ok: "trim t' = hiragana w"
    let ?s1 = "quiz_run words s (attempts ts)"
    from attempts_wrong[OF pan w wr] have
      p1: "panel words ?s1 TYPING" and w1: "currentWord ?s1 = Some w"
      and t1: "timers ?s1 = timers s" and r1: "currentRound ?s1 = currentRound s" by simp_all
    let ?s2 = "?s1\<lparr>typingInput := t'\<rparr>"
    have p2: "panel words ?s2 TYPING" and w2: "currentWord ?s2 = Some w"
      using p1 w1 by (simp_all add: panel_def)
    have run: "quiz_run words s (attempts (ts @ [t'])) = checkTyping ?s2"
      using p1 p2 by (simp add: attempts_def quiz_run_def)
    from checkTyping_result[OF w2] ok t1 r1
    show "typingFeedback (quiz_run words s (attempts (ts @ [t']))) = CORRECT \<and>
      timers (quiz_run words s (attempts (ts @ [t']))) = timers s @ [currentRound s]"
      unfolding run by simp
  qed
  show ?thesis using a b c d by blast
qed

theorem C3_typing_validation_witness:
  "panel exWords4 (exTyping\<lparr>typingInput := katakana\<rparr>) TYPING \<and>
   typingFeedback (checkTyping (exTyping\<lparr>typingInput := katakana\<rparr>)) = WRONG \<and>
   typingReveal (checkTyping (exTyping\<lparr>typingInput := katakana\<rparr>)) = Some watashi \<and>
   timers (checkTyping (exTyping\<lparr>typingInput := katakana\<rparr>)) = [] \<and>
   trim spaced = watashi \<and>
   typingFeedback (quiz_run exWords4 (exTyping\<lparr>typingInput := katakana\<rparr>)
      (attempts ([katakana, katakana] @ [spaced]))) = CORRECT \<and>
   timers (quiz_run exWords4 (exTyping\<lparr>typingInput := katakana\<rparr>)
      (attempts ([katakana, katakana] @ [spaced]))) = [1]"
proof -
  let ?w = "exWord 0x61 watashi exSentence"
  let ?s = "exTyping\<lparr>typingInput := katakana\<rparr>"
  have p: "panel exWords4 ?s TYPING" by code_simp
  have w: "currentWord ?s = Some ?w" by code_simp
  have h: "hiragana ?w = watashi" by (simp add: exWord_def)
  have k: "trim katakana \<noteq> watashi" by code_simp
  have sp: "trim spaced = watashi" by code_simp
  have t0: "timers ?s = []" by code_simp
  have r0: "currentRound ?s = 1" by code_simp
  show ?thesis
    using C3_typing_validation [OF p w, of "[katakana, katakana]" spaced] p h k sp t0 r0 by simp
qed

subsection \<open>C4: validating the assembled sentence\<close>

text \<open>
  C4. Let \<open>s0\<close> be a freshly set up Sentence round for the word \<open>w\<close>, and \<open>bs\<close> the
  blocks in the order of their creation. The pool of the round holds exactly these
  blocks, and their texts concatenated are the stripped example sentence, whatever
  lengths were drawn. Moving all blocks to the answer in that order and submitting
  gives \<open>CORRECT\<close> (and schedules the advance). In any state \<open>t\<close> of a round for
  \<open>w\<close>, validation gives \<open>CORRECT\<close> exactly when the answer's texts concatenated
  equal the stripped sentence, and \<open>WRONG\<close>, with nothing scheduled, otherwise.
\<close>

theorem C4_sentence_validation:
  "s0 = setupRound words rnd s \<Longrightarrow> panel words s0 SENTENCE \<Longrightarrow> currentWord s0 = Some w \<Longrightarrow>
   bs = mkBlocks (chunkLoop (rq_len rnd) (stripBrackets (exampleSentence w))) \<Longrightarrow>
   mset (sentenceBlocks s0) = mset bs \<and> userSentence s0 = [] \<and>
   concat (map text_b bs) = stripBrackets (exampleSentence w) \<and>
   userSentence (quiz_run words s0 (assemble bs)) = bs \<and>
   sentenceFeedback (quiz_run words s0 (assemble bs @ [SubmitSentence])) = CORRECT \<and>
   timers (quiz_run words s0 (assemble bs @ [SubmitSentence])) = timers s0 @ [currentRound s0] \<and>
   (currentWord t = Some w \<longrightarrow>
      (sentenceFeedback (checkSentence t) = CORRECT) =
        (concat (map text_b (userSentence t)) = stripBrackets (exampleSentence w))) \<and>
   (currentWord t = Some w \<longrightarrow>
      concat (map text_b (userSentence t)) \<noteq> stripBrackets (exampleSentence w) \<longrightarrow>
      sentenceFeedback (checkSentence t) = WRONG \<and> timers (checkSentence t) = timers t)"
proof -
  assume s0: "s0 = setupRound words rnd s" and pan: "panel words s0 SENTENCE"
    and w: "currentWord s0 = Some w"
    and bs: "bs = mkBlocks (chunkLoop (rq_len rnd) (stripBrackets (exampleSentence w)))"
  from pan have ne: "words \<noteq> []" and ty: "currentType s0 = SENTENCE" by (auto simp: panel_def)
  have pool: "sentenceBlocks s0 = shuffle (rq_blocks rnd) bs"
    using setupRound_sentence[OF ne] ty w unfolding s0 bs by simp
  have us: "userSentence s0 = []" unfolding s0 using ne by (simp add: setupRound_current)
  have a: "mset (sentenceBlocks s0) = mset bs" by (simp add: pool mset_shuffle)
  have c: "concat (map text_b bs) = stripBrackets (exampleSentence w)"
    by (simp add: bs map_text_mkBlocks concat_chunkLoop)
  have d: "distinct (map id_b bs)" by (simp add: bs distinct_ids_mkBlocks)
  have sub: "set bs \<subseteq> set (sentenceBlocks s0)" by (simp add: pool set_shuffle)
  let ?s1 = "quiz_run words s0 (assemble bs)"
  from assemble_all[OF d sub pan] us have
    u1: "userSentence ?s1 = bs" and w1: "currentWord ?s1 = Some w"
    and t1: "timers ?s1 = timers s0" and r1: "currentRound ?s1 = currentRound s0"
    and p1: "panel words ?s1 SENTENCE" using w by simp_all
  have run: "quiz_run words s0 (assemble bs @ [SubmitSentence]) = checkSentence ?s1"
    using p1 by (simp add: quiz_run_snoc)
  from checkSentence_result[OF w1] u1 c t1 r1 have
    e: "sentenceFeedback (checkSentence ?s1) = CORRECT"
    and f: "timers (checkSentence ?s1) = timers s0 @ [currentRound s0]" by simp_all
  have g: "currentWord t = Some w \<longrightarrow>
      (sentenceFeedback (checkSentence t) = CORRECT) =
        (concat (map text_b (userSentence t)) = stripBrackets (exampleSentence w))"
    using checkSentence_result[of t w] by auto
  have h: "currentWord t = Some w \<longrightarrow>
      concat (map text_b (userSentence t)) \<noteq> stripBrackets (exampleSentence w) \<longrightarrow>
      sentenceFeedback (checkSentence t) = WRONG \<and> timers (checkSentence t) = timers t"
    using checkSentence_result[of t w] by auto
  show ?thesis unfolding run using a us c u1 e f g h by blast
qed

theorem C4_sentence_validation_witness:
  "panel exWords4 exSentenceRound SENTENCE \<and>
   map text_b exBlocks = [[0x79C1, 0x306F], [0x5B66, 0x751F], [0x3067, 0x3059]] \<and>
   userSentence (quiz_run exWords4 exSentenceRound (assemble exBlocks)) = exBlocks \<and>
   sentenceFeedback (quiz_run exWords4 exSentenceRound (assemble exBlocks @ [SubmitSentence])) = CORRECT \<and>
   sentenceFeedback (checkSentence (quiz_run exWords4 exSentenceRound (assemble (rev exBlocks)))) = WRONG"
proof -
  let ?w = "exWord 0x61 watashi exSentence"
  let ?t = "quiz_run exWords4 exSentenceRound (assemble (rev exBlocks))"
  have s0: "exSentenceRound = setupRound exWords4 (drawsFor 2) quiz_init" by (rule exSentenceRound_def)
  have bs: "exBlocks = mkBlocks (chunkLoop (rq_len (drawsFor 2)) (stripBrackets (exampleSentence ?w)))"
    by (rule exBlocks_def)
  have p: "panel exWords4 exSentenceRound SENTENCE" by code_simp
  have w: "currentWord exSentenceRound = Some ?w" by code_simp
  have m: "map text_b exBlocks = [[0x79C1, 0x306F], [0x5B66, 0x751F], [0x3067, 0x3059]]" by code_simp
  have wt: "currentWord ?t = Some ?w" by code_simp
  have ne: "concat (map text_b (userSentence ?t)) \<noteq> stripBrackets (exampleSentence ?w)" by code_simp
  show ?thesis
    using C4_sentence_validation [OF s0 p w bs, of ?t] p m wt ne by simp
qed

subsection \<open>C5: the Listening round\<close>

text \<open>
  C5. For a pool of at least 4 words with pairwise-distinct identifiers, a freshly set
  up Listening round \<open>s0\<close> with target \<open>w\<close> offers exactly four options, with
  pairwise-distinct identifiers, all from the pool, and exactly one of them has the
  target's identifier (the target and three distractors from the pool without the
  target). In any state \<open>t\<close> of a round for \<open>w\<close>: selecting the target's identifier
  gives \<open>CORRECT\<close> and schedules the advance; selecting another identifier \<open>i\<close> gives
  \<open>WRONG\<close>, schedules nothing, and the option buttons still select; and once the
  feedback is \<open>CORRECT\<close> a click on an option does nothing.
\<close>

theorem C5_listening_round:
  "distinct (map id_w words) \<Longrightarrow> 4 \<le> length words \<Longrightarrow> s0 = setupRound words rnd s \<Longrightarrow>
   currentType s0 = LISTENING \<Longrightarrow> currentWord s0 = Some w \<Longrightarrow>
   length (listeningOptions s0) = 4 \<and> distinct (map id_w (listeningOptions s0)) \<and>
   length (filter (\<lambda>x. id_w x = id_w w) (listeningOptions s0)) = 1 \<and>
   w \<in> set (listeningOptions s0) \<and> set (listeningOptions s0) \<subseteq> set words \<and>
   listeningFeedback s0 = NONE \<and>
   (currentWord t = Some w \<longrightarrow>
      listeningFeedback (checkListening (id_w w) t) = CORRECT \<and>
      timers (checkListening (id_w w) t) = timers t @ [currentRound t] \<and>
      (i \<noteq> id_w w \<longrightarrow>
         listeningFeedback (checkListening i t) = WRONG \<and>
         timers (checkListening i t) = timers t \<and>
         (j \<in> id_w ` set (listeningOptions t) \<longrightarrow>
            clickOption j (checkListening i t) = checkListening j (checkListening i t))) \<and>
      (listeningFeedback t = CORRECT \<longrightarrow> clickOption j t = t))"
proof -
  assume d: "distinct (map id_w words)" and n: "4 \<le> length words"
    and s0: "s0 = setupRound words rnd s" and ty: "currentType s0 = LISTENING"
    and w: "currentWord s0 = Some w"
  from n have ne: "words \<noteq> []" by auto
  have win: "w \<in> set words" using setupRound_word_in[OF ne] w s0 by simp
  have opts: "listeningOptions s0 =
     shuffle (rq_options rnd) (w # take 3 (shuffle (rq_wrong rnd) (filter (\<lambda>x. id_w x \<noteq> id_w w) words)))"
    using setupRound_listening[OF ne] ty w unfolding s0 by simp
  have fb: "listeningFeedback s0 = NONE" unfolding s0 using ne by (simp add: setupRound_current)
  note lo = listening_options[OF d n win opts]
  have sel: "currentWord t = Some w \<longrightarrow>
      listeningFeedback (checkListening (id_w w) t) = CORRECT \<and>
      timers (checkListening (id_w w) t) = timers t @ [currentRound t] \<and>
      (i \<noteq> id_w w \<longrightarrow>
         listeningFeedback (checkListening i t) = WRONG \<and>
         timers (checkListening i t) = timers t \<and>
         (j \<in> id_w ` set (listeningOptions t) \<longrightarrow>
            clickOption j (checkListening i t) = checkListening j (checkListening i t))) \<and>
      (listeningFeedback t = CORRECT \<longrightarrow> clickOption j t = t)"
  proof
    assume wt: "currentWord t = Some w"
    note r = checkListening_result[OF wt, of i]
    have "i \<noteq> id_w w \<longrightarrow> j \<in> id_w ` set (listeningOptions t) \<longrightarrow>
            clickOption j (checkListening i t) = checkListening j (checkListening i t)"
      using r by (simp add: clickOption_def)
    moreover have "listeningFeedback t = CORRECT \<longrightarrow> clickOption j t = t"
      by (simp add: clickOption_def)
    ultimately show "listeningFeedback (checkListening (id_w w) t) = CORRECT \<and>
      timers (checkListening (id_w w) t) = timers t @ [currentRound t] \<and>
      (i \<noteq> id_w w \<longrightarrow>
         listeningFeedback (checkListening i t) = WRONG \<and>
         timers (checkListening i t) = timers t \<and>
         (j \<in> id_w ` set (listeningOptions t) \<longrightarrow>
            clickOption j (checkListening i t) = checkListening j (checkListening i t))) \<and>
      (listeningFeedback t = CORRECT \<longrightarrow> clickOption j t = t)"
      using r by blast
  qed
  show ?thesis using lo fb sel by blast
qed

theorem C5_listening_round_witness:
  "map id_w (listeningOptions exListening) = [[0x61], [0x62], [0x63], [0x64]] \<and>
   length (filter (\<lambda>x. id_w x = [0x61]) (listeningOptions exListening)) = 1 \<and>
   listeningFeedback (clickOption [0x62] exListening) = WRONG \<and>
   listeningFeedback (clickOption [0x61] (clickOption [0x62] exListening)) = CORRECT \<and>
   timers (clickOption [0x61] (clickOption [0x62] exListening)) = [1] \<and>
   clickOption [0x63] (clickOption [0x61] (clickOption [0x62] exListening))
     = clickOption [0x61] (clickOption [0x62] exListening)"
proof -
  let ?w = "exWord 0x61 watashi exSentence"
  let ?t = "checkListening [0x62] exListening"
  let ?u = "checkListening [0x61] ?t"
  have d: "distinct (map id_w exWords4)" by code_simp
  have n: "4 \<le> length exWords4" by code_simp
  have s0: "exListening = setupRound exWords4 (drawsFor 3) quiz_init" by (rule exListening_def)
  have ty: "currentType exListening = LISTENING" by code_simp
  have w: "currentWord exListening = Some ?w" by code_simp
  have wt: "currentWord ?t = Some ?w" by code_simp
  have wu: "currentWord ?u = Some ?w" by code_simp
  have ids: "map id_w (listeningOptions exListening) = [[0x61], [0x62], [0x63], [0x64]]" by code_simp
  have i: "id_w ?w = [0x61]" by (simp add: exWord_def)
  have c1: "clickOption [0x62] exListening = ?t" by code_simp
  have c2: "clickOption [0x61] ?t = ?u" by code_simp
  have t0: "timers exListening = []" "currentRound exListening = 1" by code_simp+
  have t1: "timers ?t = []" "currentRound ?t = 1" by code_simp+
  show ?thesis
    using C5_listening_round [OF d n s0 ty w, of exListening "[0x62]" "[0x61]"]
          C5_listening_round [OF d n s0 ty w, of ?t "[0x62]" "[0x61]"]
          C5_listening_round [OF d n s0 ty w, of ?u "[0x62]" "[0x63]"]
          w wt wu ids i c1 c2 t0 t1
    by simp
qed

subsection \<open>C6: the pool guards\<close>

text \<open>
  C6 as stated fails for the component: \<open>setupRound\<close> returns early for the empty
  pool only, and the mount effect runs it whatever the render returns. Mounted with
  3 words, QuizMode renders the insufficient-words panel, and behind it a round is
  set up: here a Listening round for the first word, with three options.
\<close>

theorem C6_mount_initializes_counterexample:
  "length exWords3 = 3 \<and>
   QuizMode_view exWords3 (quiz_mount exWords3 (drawsFor 3)) = InsufficientWords \<and>
   quiz_mount exWords3 (drawsFor 3) \<noteq> quiz_init \<and>
   currentType (quiz_mount exWords3 (drawsFor 3)) = LISTENING \<and>
   currentWord (quiz_mount exWords3 (drawsFor 3)) = Some (exWord 0x61 watashi exSentence) \<and>
   map id_w (listeningOptions (quiz_mount exWords3 (drawsFor 3))) = [[0x61], [0x62], [0x63]]"
  by code_simp

text \<open>
  C6, amended. A quiz with fewer than 4 words is refused, an insufficient-pool
  indication is given and no round runs. Through the App the quiz button is disabled
  and does nothing, so QuizMode is not mounted and no round is set up. QuizMode
  itself, mounted with such a pool, renders the insufficient-words panel in place
  of a round, no event changes anything but the count of exits, and for the empty
  pool no round is set up (for 1 to 3 words, what the mount effect sets up behind
  the panel is not part of the statement). With 4 or more words the quiz starts.
  ReviewMode needs 1 word: the review button starts it, it renders the round, and
  the round has 5 slots filled from the pool; with no word the button does nothing,
  and through the unguarded button of the navigation bar the component is mounted
  in its initial state, with no round set up, and renders the no-words panel. A pool
  of exactly 3 distinct words is refused by the quiz and accepted by the review,
  which repeats words to fill the 5 slots.
\<close>

theorem C6_pool_guards:
  "(length words < 4 \<longrightarrow>
      App_quizButton words HOME = HOME \<and> App_startQuiz words rq = None \<and>
      QuizMode_view words qs = InsufficientWords \<and>
      (quiz_run words (quiz_mount words rq) evs)\<lparr>exits := 0\<rparr> = quiz_mount words rq) \<and>
   (length words = 0 \<longrightarrow> quiz_mount words rq = quiz_init) \<and>
   (4 \<le> length words \<longrightarrow>
      App_startQuiz words rq = Some (quiz_mount words rq) \<and>
      QuizMode_view words qs = QuizRound (currentRound qs) (currentType qs)) \<and>
   (1 \<le> length words \<longrightarrow>
      App_startReview words rr = Some (review_mount words rr) \<and>
      ReviewMode_view words (review_mount words rr) =
        ReviewRound 1 (shuffledLeft (review_mount words rr)) (shuffledRight (review_mount words rr)) \<and>
      length (shuffledLeft (review_mount words rr)) = 5 \<and>
      set (shuffledLeft (review_mount words rr)) \<subseteq> set words) \<and>
   (length words < 1 \<longrightarrow>
      App_startReview words rr = None \<and> App_navReview words rr = Some review_init \<and>
      ReviewMode_view words rs = NoWords)"
proof -
  have a: "length words < 4 \<longrightarrow>
      App_quizButton words HOME = HOME \<and> App_startQuiz words rq = None \<and>
      QuizMode_view words qs = InsufficientWords \<and>
      (quiz_run words (quiz_mount words rq) evs)\<lparr>exits := 0\<rparr> = quiz_mount words rq"
  proof
    assume l: "length words < 4"
    have t: "timers (quiz_mount words rq) = []" and x: "exits (quiz_mount words rq) = 0"
      by (simp_all add: quiz_mount_frame)
    have "(quiz_mount words rq)\<lparr>exits := 0\<rparr> = quiz_mount words rq" using x by simp
    with few_words_run[OF l t, of evs]
    have "(quiz_run words (quiz_mount words rq) evs)\<lparr>exits := 0\<rparr> = quiz_mount words rq" by simp
    with l show "App_quizButton words HOME = HOME \<and> App_startQuiz words rq = None \<and>
      QuizMode_view words qs = InsufficientWords \<and>
      (quiz_run words (quiz_mount words rq) evs)\<lparr>exits := 0\<rparr> = quiz_mount words rq"
      by (simp add: App_quizButton_def App_startQuiz_def QuizMode_view_def)
  qed
  have e: "length words = 0 \<longrightarrow> quiz_mount words rq = quiz_init"
    by (simp add: quiz_mount_def setupRound_def)
  have b: "4 \<le> length words \<longrightarrow>
      App_startQuiz words rq = Some (quiz_mount words rq) \<and>
      QuizMode_view words qs = QuizRound (currentRound qs) (currentType qs)"
    by (simp add: App_quizButton_def App_startQuiz_def QuizMode_view_def)
  have c: "1 \<le> length words \<longrightarrow>
      App_startReview words rr = Some (review_mount words rr) \<and>
      ReviewMode_view words (review_mount words rr) =
        ReviewRound 1 (shuffledLeft (review_mount words rr)) (shuffledRight (review_mount words rr)) \<and>
      length (shuffledLeft (review_mount words rr)) = 5 \<and>
      set (shuffledLeft (review_mount words rr)) \<subseteq> set words"
  proof
    assume l: "1 \<le> length words"
    then have ne: "words \<noteq> []" by auto
    from review_mount_left[of words rr] ne have
      "length (shuffledLeft (review_mount words rr)) = 5" "set (shuffledLeft (review_mount words rr)) \<subseteq> set words"
      by simp_all
    with l ne show "App_startReview words rr = Some (review_mount words rr) \<and>
      ReviewMode_view words (review_mount words rr) =
        ReviewRound 1 (shuffledLeft (review_mount words rr)) (shuffledRight (review_mount words rr)) \<and>
      length (shuffledLeft (review_mount words rr)) = 5 \<and>
      set (shuffledLeft (review_mount words rr)) \<subseteq> set words"
      by (simp add: App_reviewButton_def App_startReview_def ReviewMode_view_def review_mount_round)
  qed
  have d: "length words < 1 \<longrightarrow>
      App_startReview words rr = None \<and> App_navReview words rr = Some review_init \<and>
      ReviewMode_view words rs = NoWords"
    by (simp add: App_reviewButton_def App_startReview_def App_navReview_def ReviewMode_view_def
          review_mount_def setupRound_review_def)
  show ?thesis using a b c d e by blast
qed

theorem C6_pool_guards_witness:
  "length exWords3 = 3 \<and> distinct (map id_w exWords3) \<and>
   App_startQuiz exWords3 (drawsFor 1) = None \<and>
   QuizMode_view exWords3 quiz_init = InsufficientWords \<and>
   (quiz_run exWords3 (quiz_mount exWords3 (drawsFor 1)) exRound)\<lparr>exits := 0\<rparr>
      = quiz_mount exWords3 (drawsFor 1) \<and>
   App_startReview exWords3 noDraws = Some (review_mount exWords3 noDraws) \<and>
   length (shuffledLeft (review_mount exWords3 noDraws)) = 5 \<and>
   map id_w (shuffledLeft (review_mount exWords3 noDraws)) = [[0x61], [0x62], [0x63], [0x61], [0x62]] \<and>
   App_startQuiz exWords4 (drawsFor 1) = Some exTyping \<and>
   quiz_mount [] (drawsFor 1) = quiz_init"
proof -
  have l3: "length exWords3 = 3" and d3: "distinct (map id_w exWords3)" by code_simp+
  have l4: "length exWords4 = 4" by code_simp
  have ids: "map id_w (shuffledLeft (review_mount exWords3 noDraws)) = [[0x61], [0x62], [0x63], [0x61], [0x62]]"
    by code_simp
  show ?thesis
    using C6_pool_guards [of exWords3 "drawsFor 1" quiz_init exRound noDraws review_init]
          C6_pool_guards [of exWords4 "drawsFor 1" quiz_init exRound noDraws review_init]
          C6_pool_guards [of "[]" "drawsFor 1" quiz_init exRound noDraws review_init]
          l3 d3 l4 ids
    by (simp add: exTyping_def)
qed

subsection \<open>C7: the review round sampler\<close>

text \<open>
  C7. For a pool of pairwise-distinct identifiers with at least one word, the loop of
  ReviewMode's \<open>setupRound\<close> produces exactly 5 words, all from the pool; with 5 or
  more words in the pool no two of the 5 have the same identifier; with 1 to 4 words
  the emptied pool is refilled and 5 words are still produced. The left column and
  the words of the right column of the new round are these 5 words in some order.
\<close>

theorem C7_review_sampler:
  "distinct (map id_w words) \<Longrightarrow> 1 \<le> length words \<Longrightarrow>
   length (pickRoundWords 5 rs words words []) = 5 \<and>
   set (pickRoundWords 5 rs words words []) \<subseteq> set words \<and>
   (5 \<le> length words \<longrightarrow> distinct (map id_w (pickRoundWords 5 rs words words []))) \<and>
   mset (shuffledLeft (setupRound_review words rnd s)) = mset (pickRoundWords 5 (rr_index rnd) words words []) \<and>
   mset (map word (shuffledRight (setupRound_review words rnd s))) = mset (pickRoundWords 5 (rr_index rnd) words words [])"
proof -
  assume d: "distinct (map id_w words)" and n: "1 \<le> length words"
  then have ne: "words \<noteq> []" by auto
  have a: "length (pickRoundWords 5 rs words words []) = 5"
    by (simp only: length_pickRoundWords) simp
  have b: "set (pickRoundWords 5 rs words words []) \<subseteq> set words"
    using ne by (intro set_pickRoundWords) auto
  have c: "5 \<le> length words \<longrightarrow> distinct (map id_w (pickRoundWords 5 rs words words []))"
    using d by (auto intro: distinct_pickRoundWords)
  have e: "mset (shuffledLeft (setupRound_review words rnd s)) = mset (pickRoundWords 5 (rr_index rnd) words words [])"
    using ne by (simp add: setupRound_review_fields mset_shuffle)
  show ?thesis using a b c e mset_right_words[OF ne] by blast
qed

theorem C7_review_sampler_witness:
  "distinct (map id_w exWords5) \<and> 1 \<le> length exWords5 \<and>
   length (pickRoundWords 5 [] exWords5 exWords5 []) = 5 \<and>
   distinct (map id_w (pickRoundWords 5 [] exWords5 exWords5 [])) \<and>
   distinct (map id_w exWords3) \<and> 1 \<le> length exWords3 \<and>
   length (pickRoundWords 5 [] exWords3 exWords3 []) = 5 \<and>
   set (pickRoundWords 5 [] exWords3 exWords3 []) \<subseteq> set exWords3"
  using C7_review_sampler [of exWords5 "[]" noDraws review_init]
        C7_review_sampler [of exWords3 "[]" noDraws review_init]
  by (simp add: exWords3_def exWords5_def exWord_def)

subsection \<open>C8: the fragments of the Sentence engine\<close>




subsection \<open>C9: pending timers\<close>

text \<open>
  C9 as stated fails: a callback of an earlier round, or of a session that was left,
  still takes effect. In the first session the right response is submitted twice in
  round 1; when the first timer has fired, round 2 has begun and the callback of the
  second submission is still pending; when it fires it advances the round to 3. In
  the second session the right response is submitted in round 10 and the learner
  leaves through the exit button, which invokes \<open>onExit\<close>; the pending callback then
  invokes \<open>onExit\<close> a second time. The component has no \<open>clearTimeout\<close> and no
  token of the round or session anywhere: that no timer is cancelled is how it is
  built. That two callbacks can be pending in one round is the missing lock of the
  Typing and Sentence panels, the defect of C1.
\<close>

theorem C9_stale_timer_counterexample:
  "currentRound (quiz_run exWords4 exTyping exTwiceStart) = 2 \<and>
   timers (quiz_run exWords4 exTyping exTwiceStart) = [1] \<and>
   currentRound (quiz_run exWords4 exTyping exTwice) = 3 \<and>
   exits (quiz_run exWords4 exRound10 exLeaveStart) = 1 \<and>
   timers (quiz_run exWords4 exRound10 exLeaveStart) = [10] \<and>
   exits (quiz_run exWords4 exRound10 exLeave) = 2"
  by code_simp

text \<open>
  C9, amended. No scheduled auto-advance timer is cancelled: no event other than
  the firing of a timer removes a pending callback, in particular not the exit
  button. If the session is left before the timer fires, the callback still runs:
  its state updates are dropped, so it neither advances the round nor changes the
  round, but if it was scheduled in round \<open>TOTAL_ROUNDS\<close> it invokes \<open>onExit\<close>
  again. A callback that fires in the round that scheduled it, in a session that
  was not left, advances the round below \<open>TOTAL_ROUNDS\<close> and invokes \<open>onExit\<close> at
  \<open>TOTAL_ROUNDS\<close>. What a callback of an earlier round does to a session that is
  still running is not part of the statement.
\<close>

theorem C9_timers_not_cancelled:
  "k < length (timers s) \<Longrightarrow> cr = timers s ! k \<Longrightarrow> s' = quiz_step words s (TimerFires k rnd) \<Longrightarrow>
   timers s' = splice1 k (timers s) \<and>
   ((\<forall>j r. e \<noteq> TimerFires j r) \<longrightarrow> prefix (timers s) (timers (quiz_step words s e))) \<and>
   timers (quiz_step words s QuizExit) = timers s \<and>
   (exits s = 0 \<longrightarrow> cr = currentRound s \<longrightarrow> cr < TOTAL_ROUNDS \<longrightarrow>
      s' = setupRound words rnd (s\<lparr>timers := splice1 k (timers s), currentRound := currentRound s + 1\<rparr>) \<and>
      currentRound s' = currentRound s + 1 \<and> exits s' = 0) \<and>
   (exits s = 0 \<longrightarrow> cr = currentRound s \<longrightarrow> \<not> cr < TOTAL_ROUNDS \<longrightarrow>
      exits s' = 1 \<and> currentRound s' = currentRound s) \<and>
   (0 < exits s \<longrightarrow> cr < TOTAL_ROUNDS \<longrightarrow> s' = s\<lparr>timers := splice1 k (timers s)\<rparr>) \<and>
   (0 < exits s \<longrightarrow> \<not> cr < TOTAL_ROUNDS \<longrightarrow>
      s' = s\<lparr>timers := splice1 k (timers s), exits := exits s + 1\<rparr>)"
proof -
  assume k: "k < length (timers s)" and cr: "cr = timers s ! k"
    and s': "s' = quiz_step words s (TimerFires k rnd)"
  have f: "s' = fireTimer k words rnd s" using s' by simp
  have x: "timers (quiz_step words s QuizExit) = timers s" by simp
  have own: "exits s = 0 \<longrightarrow> cr = currentRound s \<longrightarrow> \<not> cr < TOTAL_ROUNDS \<longrightarrow>
      exits s' = 1 \<and> currentRound s' = currentRound s"
    unfolding f cr using fireTimer_effect[OF k, of words rnd] by simp
  have left: "(0 < exits s \<longrightarrow> cr < TOTAL_ROUNDS \<longrightarrow> s' = s\<lparr>timers := splice1 k (timers s)\<rparr>) \<and>
   (0 < exits s \<longrightarrow> \<not> cr < TOTAL_ROUNDS \<longrightarrow>
      s' = s\<lparr>timers := splice1 k (timers s), exits := exits s + 1\<rparr>)"
    unfolding f cr using fireTimer_left[OF k, of words rnd] by blast
  show ?thesis
    using fireTimer_effect[OF k, of words rnd] no_handler_cancels[of e s words] x own left
    unfolding f cr by blast
qed

theorem C9_timers_not_cancelled_witness:
  "timers (quiz_run exWords4 exRound10 exLeaveStart) = [10] \<and>
   exits (quiz_run exWords4 exRound10 exLeaveStart) = 1 \<and>
   currentRound (quiz_run exWords4 exRound10 exLeaveStart) = 10 \<and>
   exits (quiz_step exWords4 (quiz_run exWords4 exRound10 exLeaveStart) (TimerFires 0 (drawsFor 1))) = 2 \<and>
   currentRound (quiz_step exWords4 (quiz_run exWords4 exRound10 exLeaveStart) (TimerFires 0 (drawsFor 1))) = 10 \<and>
   timers (quiz_step exWords4 (quiz_run exWords4 exRound10 exLeaveStart) (TimerFires 0 (drawsFor 1))) = [] \<and>
   timers (checkTyping (exTyping\<lparr>typingInput := spaced\<rparr>)) = [1] \<and>
   timers (quiz_step exWords4 (checkTyping (exTyping\<lparr>typingInput := spaced\<rparr>)) QuizExit) = [1] \<and>
   currentRound (quiz_step exWords4 (checkTyping (exTyping\<lparr>typingInput := spaced\<rparr>))
      (TimerFires 0 (drawsFor 1))) = 2"
proof -
  let ?s = "quiz_run exWords4 exRound10 exLeaveStart"
  let ?u = "checkTyping (exTyping\<lparr>typingInput := spaced\<rparr>)"
  have t: "timers ?s = [10]" and x: "exits ?s = 1" and r: "currentRound ?s = 10" by code_simp+
  have k: "0 < length (timers ?s)" using t by simp
  have cr: "10 = timers ?s ! 0" using t by simp
  have ge: "\<not> (10::nat) < TOTAL_ROUNDS" by (simp add: TOTAL_ROUNDS_def)
  have tu: "timers ?u = [1]" and xu: "exits ?u = 0" and ru: "currentRound ?u = 1" by code_simp+
  have ku: "0 < length (timers ?u)" using tu by simp
  have cu: "1 = timers ?u ! 0" using tu by simp
  have lt: "(1::nat) < TOTAL_ROUNDS" by (simp add: TOTAL_ROUNDS_def)
  show ?thesis
    using C9_timers_not_cancelled [OF k cr refl, of exWords4 "drawsFor 1" QuizExit]
          C9_timers_not_cancelled [OF ku cu refl, of exWords4 "drawsFor 1" QuizExit]
          t x r ge tu xu ru lt
    by (simp add: splice1_def setupRound_frame)
qed

subsection \<open>C10: an identifier is matched once; completion needs five distinct identifiers\<close>

text \<open>
  C10. In every state \<open>s\<close> that a ReviewMode session reaches, the matched list has no
  identifier twice, also when the identifier occupies several of the five slots. So
  the completion predicate \<open>isRoundComplete\<close> (as many matched identifiers as left
  slots) holds only when the five words of the round have pairwise-distinct
  identifiers: for the left column of \<open>s\<close>, and for the words the sampler drew for a
  round set up after \<open>s\<close>, whatever is clicked in it. A pool of fewer than five words
  therefore never completes a round.
\<close>

theorem C10_review_match_once:
  "s = review_run words (review_mount words rnd0) evs \<Longrightarrow>
   distinct (matchedPairs s) \<and>
   (isRoundComplete s \<longrightarrow> length (shuffledLeft s) = 5 \<and> distinct (map id_w (shuffledLeft s))) \<and>
   (isRoundComplete (fold review_click cs (setupRound_review words rnd s)) \<longrightarrow>
      distinct (map id_w (pickRoundWords 5 (rr_index rnd) words words []))) \<and>
   (length words < 5 \<longrightarrow> \<not> isRoundComplete s)"
proof -
  assume s: "s = review_run words (review_mount words rnd0) evs"
  have inv: "review_inv s" unfolding s by (intro review_run_inv review_mount_inv)
  have left: "set (shuffledLeft s) \<subseteq> set words \<and> length (shuffledLeft s) = (if words = [] then 0 else 5)"
    unfolding s by (intro review_run_left review_mount_left)
  have a: "distinct (matchedPairs s)" using inv by (simp add: review_inv_def)
  have b: "isRoundComplete s \<longrightarrow> length (shuffledLeft s) = 5 \<and> distinct (map id_w (shuffledLeft s))"
  proof
    assume c: "isRoundComplete s"
    then have "shuffledLeft s \<noteq> []" by (auto simp: isRoundComplete_def)
    with left have "length (shuffledLeft s) = 5" by (auto split: if_splits)
    with review_inv_complete[OF inv c] show "length (shuffledLeft s) = 5 \<and> distinct (map id_w (shuffledLeft s))" by simp
  qed
  have c: "isRoundComplete (fold review_click cs (setupRound_review words rnd s)) \<longrightarrow>
      distinct (map id_w (pickRoundWords 5 (rr_index rnd) words words []))"
  proof
    let ?t = "fold review_click cs (setupRound_review words rnd s)"
    assume c: "isRoundComplete ?t"
    have ti: "review_inv ?t" using inv by (intro review_clicks_inv setupRound_review_inv)
    have d: "distinct (map id_w (shuffledLeft (setupRound_review words rnd s)))"
      using review_inv_complete[OF ti c] by (simp only: review_clicks_left)
    show "distinct (map id_w (pickRoundWords 5 (rr_index rnd) words words []))"
    proof (cases "words = []")
      case True
      with left c show ?thesis
        by (simp add: isRoundComplete_def review_clicks_left setupRound_review_def)
    next
      case False
      with d show ?thesis by (simp add: setupRound_review_fields distinct_map_shuffle)
    qed
  qed
  have d: "length words < 5 \<longrightarrow> \<not> isRoundComplete s"
  proof (intro impI notI)
    assume l: "length words < 5" and c: "isRoundComplete s"
    from b c have "length (shuffledLeft s) = 5" and dd: "distinct (map id_w (shuffledLeft s))" by auto
    with left l few_words_not_distinct[of "shuffledLeft s" words id_w] show False by auto
  qed
  show ?thesis using a b c d by blast
qed

theorem C10_review_match_once_witness:
  "isRoundComplete exFullRound \<and> distinct (matchedPairs exFullRound) \<and>
   length (shuffledLeft exFullRound) = 5 \<and> distinct (map id_w (shuffledLeft exFullRound)) \<and>
   length exWords3 < 5 \<and> \<not> isRoundComplete exSmallRound \<and> distinct (matchedPairs exSmallRound)"
proof -
  have f: "exFullRound = review_run exWords5 (review_mount exWords5 noDraws) exMatchAll"
    by (rule exFullRound_def)
  have g: "exSmallRound = review_run exWords3 (review_mount exWords3 noDraws) exMatchAll"
    by (rule exSmallRound_def)
  have c: "isRoundComplete exFullRound" by code_simp
  have l: "length exWords3 < 5" by code_simp
  show ?thesis
    using C10_review_match_once [OF f, of "[]" noDraws] C10_review_match_once [OF g, of "[]" noDraws] c l
    by simp
qed

end
